theory Spec2Isabelle
  imports Complex_Main
begin

section \<open>Calls that return or raise\<close>

text \<open>
  Every call of the program either returns a value or raises an exception (an instance of
  Python's \<open>Exception\<close>, kept as its message \<open>str(e)\<close>). Both results carry the state the
  call leaves behind: what a call did before it raised stays done.
\<close>

datatype ('a, 's) res = Return 'a 's | Raise string 's

definition res_state :: "('a, 's) res \<Rightarrow> 's" where
  "res_state r = (case r of Return v s \<Rightarrow> s | Raise e s \<Rightarrow> s)"

definition returns :: "('a, 's) res \<Rightarrow> bool" where
  "returns r = (case r of Return v s \<Rightarrow> True | Raise e s \<Rightarrow> False)"

definition returned :: "('a, 's) res \<Rightarrow> 'a option" where
  "returned r = (case r of Return v s \<Rightarrow> Some v | Raise e s \<Rightarrow> None)"

definition raised :: "('a, 's) res \<Rightarrow> string option" where
  "raised r = (case r of Return v s \<Rightarrow> None | Raise e s \<Rightarrow> Some e)"

text \<open>\<open>str(KeyError(k))\<close> is the key in single quotes.\<close>

definition key_error :: "string \<Rightarrow> string" where
  "key_error k = CHR 0x27 # k @ [CHR 0x27]"

section \<open>runtime_state.py: StepEvent and RuntimeMonitor\<close>

record StepEvent =
  step_index :: int
  action :: "string option"
  status :: string
  timestamp :: string
  selector :: "string option"
  url :: "string option"
  val :: "string option"
  error :: "string option"
  screenshot_path :: "string option"

text \<open>
  A listener is a callable of the outside world \<open>'x\<close>: called with an event it changes the
  world (it prints, it stores) and returns, or raises.
\<close>

type_synonym 'x listener = "StepEvent \<Rightarrow> 'x \<Rightarrow> (unit, 'x) res"

record 'x RuntimeMonitor =
  events :: "StepEvent list"
  listeners :: "'x listener list"
  current_step :: "int option"

definition monitor_init :: "'x RuntimeMonitor" where
  "monitor_init = \<lparr>events = [], listeners = [], current_step = None\<rparr>"

definition add_listener :: "'x listener \<Rightarrow> 'x RuntimeMonitor \<Rightarrow> 'x RuntimeMonitor" where
  "add_listener callback m = m\<lparr>listeners := listeners m @ [callback]\<rparr>"

text \<open>
  One turn of the loop of \<open>emit\<close>: the call of the listener inside \<open>try\<close>, and
  \<open>except Exception\<close>, whose handler only prints.
\<close>

definition call_listener :: "'x listener \<Rightarrow> StepEvent \<Rightarrow> 'x \<Rightarrow> (unit, 'x) res" where
  "call_listener listener event w =
     (case listener event w of
        Return u w' \<Rightarrow> Return () w'
      | Raise e w' \<Rightarrow> Return () w')"

fun call_listeners :: "'x listener list \<Rightarrow> StepEvent \<Rightarrow> 'x \<Rightarrow> (unit, 'x) res" where
  "call_listeners [] event w = Return () w"
| "call_listeners (listener # rest) event w =
     (case call_listener listener event w of
        Return u w' \<Rightarrow> call_listeners rest event w'
      | Raise e w' \<Rightarrow> Raise e w')"

definition emit ::
  "StepEvent \<Rightarrow> 'x RuntimeMonitor \<times> 'x \<Rightarrow> (unit, 'x RuntimeMonitor \<times> 'x) res" where
  "emit event mw =
     (let m = fst mw; w = snd mw;
          m1 = m\<lparr>events := events m @ [event]\<rparr>;
          m2 = m1\<lparr>current_step := Some (step_index event)\<rparr>
      in case call_listeners (listeners m2) event w of
           Return u w' \<Rightarrow> Return () (m2, w')
         | Raise e w' \<Rightarrow> Raise e (m2, w'))"

text \<open>
  The dict \<open>get_current_status\<close> returns: with two keys when nothing was logged, with five
  otherwise. A key the dict does not have is \<open>None\<close> here; the value under
  \<open>"current_step"\<close> is itself optional.
\<close>

record status_dict =
  sd_status :: string
  sd_total_steps :: int
  sd_completed :: "nat option"
  sd_failed :: "nat option"
  sd_current_step :: "int option option"

text \<open>\<open>max(e.step_index for e in self.events)\<close>; Python's \<open>max\<close> raises on an empty
  sequence, and the function is left unspecified there (it is only called on a log with
  an event).\<close>

fun max_step_index :: "StepEvent list \<Rightarrow> int" where
  "max_step_index (e # es) = foldl max (step_index e) (map step_index es)"

definition get_current_status :: "'x RuntimeMonitor \<Rightarrow> status_dict" where
  "get_current_status m =
     (if events m = [] then
        \<lparr>sd_status = ''not_started'', sd_total_steps = 0, sd_completed = None,
         sd_failed = None, sd_current_step = None\<rparr>
      else
        (let total_steps = max_step_index (events m) + 1;
             completed = length (filter (\<lambda>e. status e = ''success'') (events m));
             failed = length (filter (\<lambda>e. status e = ''failed'') (events m))
         in \<lparr>sd_status = (if current_step m \<noteq> None then ''running'' else ''stopped''),
             sd_total_steps = total_steps, sd_completed = Some completed,
             sd_failed = Some failed, sd_current_step = Some (current_step m)\<rparr>))"

definition get_log :: "'x RuntimeMonitor \<Rightarrow> StepEvent list" where
  "get_log m = events m"

text \<open>
  The monitor states a program can reach: a new monitor, and what \<open>add_listener\<close> and
  \<open>emit\<close> make of a reachable one (no other code of the repository writes a monitor's
  fields).
\<close>

inductive reachable :: "'x RuntimeMonitor \<Rightarrow> bool" where
  reach_init: "reachable monitor_init"
| reach_add: "reachable m \<Longrightarrow> reachable (add_listener callback m)"
| reach_emit: "reachable m \<Longrightarrow> reachable (fst (res_state (emit event (m, w))))"

section \<open>Plans, and the world outside the program\<close>

text \<open>
  A step of a plan is a dict; the code reads six of its keys. A key the dict does not have
  is \<open>None\<close>, and a value has the type the planner's format gives it (strings, and a
  number of seconds). A plan is a dict with the key \<open>"steps"\<close>, or without it.
\<close>

record step =
  step_action :: "string option"
  step_url :: "string option"
  step_selector :: "string option"
  step_value :: "string option"
  step_seconds :: "int option"
  step_screenshot_path :: "string option"

record plan =
  steps :: "step list option"

text \<open>
  The environment: the clock, the browser behind the driver, the file system and the
  language model, all of them part of one world \<open>'x\<close>. Reading the clock moves the world
  on; a browser action returns or raises (a timeout, a missing element), and the world it
  leaves is kept either way. Launching the browser, reading the current URL and the page
  source, and saving a screenshot are taken to succeed.
  \<^item> \<open>request_plan\<close> is the HTTP request of \<open>get_task_plan\<close> with the decoding of its answer:
    the plan the model sent, or the exception \<open>get_task_plan\<close> raises for a failed request or
    an answer that is not JSON;
  \<^item> \<open>refine_context\<close> is the text \<open>refine_plan_with_error\<close> builds;
  \<^item> \<open>seconds_between start end\<close> is \<open>(fromisoformat(end) - fromisoformat(start)).total_seconds()\<close>,
    \<open>None\<close> when that raises; \<open>format_1f\<close> is the format \<open>.1f\<close>.
\<close>

record 'x env =
  now_isoformat :: "'x \<Rightarrow> string \<times> 'x"
  now_strftime :: "string \<Rightarrow> 'x \<Rightarrow> string \<times> 'x"
  seconds_between :: "string \<Rightarrow> string \<Rightarrow> rat option"
  format_1f :: "rat \<Rightarrow> string"
  chrome :: "bool \<Rightarrow> 'x \<Rightarrow> 'x"
  driver_quit :: "'x \<Rightarrow> 'x"
  driver_current_url :: "'x \<Rightarrow> string"
  driver_page_source :: "'x \<Rightarrow> string"
  driver_get :: "string \<Rightarrow> 'x \<Rightarrow> (unit, 'x) res"
  driver_save_screenshot :: "string \<Rightarrow> 'x \<Rightarrow> 'x"
  wait_and_type :: "nat \<Rightarrow> string \<Rightarrow> string \<Rightarrow> 'x \<Rightarrow> (unit, 'x) res"
  wait_and_click :: "nat \<Rightarrow> string \<Rightarrow> 'x \<Rightarrow> (unit, 'x) res"
  time_sleep :: "int \<Rightarrow> 'x \<Rightarrow> (unit, 'x) res"
  request_plan :: "string \<Rightarrow> 'x \<Rightarrow> (plan, 'x) res"
  refine_context :: "int \<Rightarrow> string \<Rightarrow> step \<Rightarrow> string option \<Rightarrow> string"

section \<open>reporter.py: ExecutionReporter\<close>

record ExecutionReporter =
  rep_events :: "StepEvent list"
  start_time :: "string option"
  end_time :: "string option"

definition reporter_init :: "StepEvent list \<Rightarrow> ExecutionReporter" where
  "reporter_init monitor_events =
     (if monitor_events \<noteq> [] then
        \<lparr>rep_events = monitor_events,
         start_time = Some (timestamp (hd monitor_events)),
         end_time = Some (timestamp (last monitor_events))\<rparr>
      else \<lparr>rep_events = monitor_events, start_time = None, end_time = None\<rparr>)"

text \<open>Python's truth value of an optional string: \<open>None\<close> and \<open>""\<close> are false.\<close>

definition truthy :: "string option \<Rightarrow> bool" where
  "truthy x = (case x of None \<Rightarrow> False | Some t \<Rightarrow> t \<noteq> [])"

text \<open>\<open>s.replace(c, '')\<close> for a single character \<open>c\<close>.\<close>

definition remove_char :: "char \<Rightarrow> string \<Rightarrow> string" where
  "remove_char c t = filter (\<lambda>d. d \<noteq> c) t"

definition generate_execution_id :: "'x env \<Rightarrow> ExecutionReporter \<Rightarrow> 'x \<Rightarrow> string \<times> 'x" where
  "generate_execution_id env r w =
     (if truthy (start_time r) then
        (''exec_'' @ take 15 (remove_char (CHR ''.'') (remove_char (CHR ''-'')
            (remove_char (CHR '':'') (the (start_time r))))), w)
      else
        (let (now, w') = now_strftime env ''%Y%m%d%H%M%S'' w in (''exec_'' @ now, w')))"

definition calculate_duration :: "'x env \<Rightarrow> ExecutionReporter \<Rightarrow> string" where
  "calculate_duration env r =
     (if \<not> truthy (start_time r) \<or> \<not> truthy (end_time r) then ''N/A''
      else
        (case seconds_between env (the (start_time r)) (the (end_time r)) of
           None \<Rightarrow> ''N/A''
         | Some seconds \<Rightarrow>
             if seconds < 60 then format_1f env seconds @ ''s''
             else if seconds < 3600 then format_1f env (seconds / 60) @ ''m''
             else format_1f env (seconds / 3600) @ ''h''))"

text \<open>
  \<open>round(x, 2)\<close>, with the float \<open>x\<close> taken as the rational it stands for: to the nearest
  hundredth, a tie to the even one.
\<close>

definition round_half_even :: "rat \<Rightarrow> int" where
  "round_half_even q =
     (let f = \<lfloor>q\<rfloor>; d = q - of_int f
      in if d < 1 / 2 then f else if 1 / 2 < d then f + 1 else if even f then f else f + 1)"

definition round2 :: "rat \<Rightarrow> rat" where
  "round2 q = of_int (round_half_even (q * 100)) / 100"

record error_entry =
  err_step :: int
  err_action :: "string option"
  err_error :: "string option"
  err_screenshot :: "string option"

record Summary =
  execution_id :: string
  summary_timestamp :: "string option"
  duration :: string
  total_steps :: nat
  successful_steps :: nat
  failed_steps :: nat
  success_rate :: rat
  urls_visited :: "string set"
  errors :: "error_entry list"
  summary_status :: string

text \<open>
  \<open>urls_visited\<close> is \<open>list(set(...))\<close>, a list in the order of Python's hashing: it is kept
  as the set it lists.
\<close>

definition generate_summary :: "'x env \<Rightarrow> ExecutionReporter \<Rightarrow> 'x \<Rightarrow> Summary \<times> 'x" where
  "generate_summary env r w =
     (let total = length (filter (\<lambda>e. status e = ''started'') (rep_events r));
          successful = length (filter (\<lambda>e. status e = ''success'') (rep_events r));
          failed = length (filter (\<lambda>e. status e = ''failed'') (rep_events r));
          rate = (if total > 0 then of_nat successful / of_nat total * 100 else 0);
          dur = calculate_duration env r;
          errs = map (\<lambda>e. \<lparr>err_step = step_index e, err_action = action e,
                             err_error = error e, err_screenshot = screenshot_path e\<rparr>)
                   (filter (\<lambda>e. status e = ''failed'') (rep_events r));
          urls = set (map (\<lambda>e. the (url e))
                   (filter (\<lambda>e. truthy (url e) \<and> status e = ''success'') (rep_events r)));
          (eid, w') = generate_execution_id env r w
      in (\<lparr>execution_id = eid, summary_timestamp = start_time r, duration = dur,
           total_steps = total, successful_steps = successful, failed_steps = failed,
           success_rate = round2 rate, urls_visited = urls, errors = errs,
           summary_status = (if failed = 0 then ''completed'' else ''failed'')\<rparr>, w'))"

section \<open>selenium_executor.py: SeleniumExecutor\<close>

text \<open>
  \<open>driver\<close> says whether \<open>self.driver\<close> is set; the browser itself is in the world. The
  executor holds the monitor it was made with, the same object the orchestrator reads.
\<close>

record 'x SeleniumExecutor =
  monitor :: "'x RuntimeMonitor"
  driver :: bool
  headless :: bool
  screenshot_dir :: string
  timeout :: nat

type_synonym 'x exec_state = "'x SeleniumExecutor \<times> 'x"

definition executor_init :: "'x RuntimeMonitor \<Rightarrow> bool \<Rightarrow> string \<Rightarrow> 'x SeleniumExecutor" where
  "executor_init m hl dir =
     \<lparr>monitor = m, driver = False, headless = hl, screenshot_dir = dir, timeout = 10\<rparr>"

definition and_then ::
  "('a, 's) res \<Rightarrow> ('a \<Rightarrow> 's \<Rightarrow> ('b, 's) res) \<Rightarrow> ('b, 's) res" where
  "and_then r f = (case r of Return v s \<Rightarrow> f v s | Raise e s \<Rightarrow> Raise e s)"

text \<open>A call into the world, made by the executor.\<close>

definition in_world :: "('x \<Rightarrow> ('a, 'x) res) \<Rightarrow> 'x exec_state \<Rightarrow> ('a, 'x exec_state) res" where
  "in_world f s =
     (case f (snd s) of
        Return v w' \<Rightarrow> Return v (fst s, w')
      | Raise e w' \<Rightarrow> Raise e (fst s, w'))"

text \<open>\<open>self.monitor.emit(event)\<close>.\<close>

definition emit_event :: "StepEvent \<Rightarrow> 'x exec_state \<Rightarrow> (unit, 'x exec_state) res" where
  "emit_event event s =
     (case emit event (monitor (fst s), snd s) of
        Return u mw \<Rightarrow> Return () ((fst s)\<lparr>monitor := fst mw\<rparr>, snd mw)
      | Raise e mw \<Rightarrow> Raise e ((fst s)\<lparr>monitor := fst mw\<rparr>, snd mw))"

definition start_browser :: "'x env \<Rightarrow> 'x exec_state \<Rightarrow> 'x exec_state" where
  "start_browser env s = ((fst s)\<lparr>driver := True\<rparr>, chrome env (headless (fst s)) (snd s))"

definition stop_browser :: "'x env \<Rightarrow> 'x exec_state \<Rightarrow> 'x exec_state" where
  "stop_browser env s =
     (if driver (fst s) then ((fst s)\<lparr>driver := False\<rparr>, driver_quit env (snd s)) else s)"

definition get_page_source :: "'x env \<Rightarrow> 'x exec_state \<Rightarrow> string" where
  "get_page_source env s = (if driver (fst s) then driver_page_source env (snd s) else [])"

definition get_current_url :: "'x env \<Rightarrow> 'x exec_state \<Rightarrow> string" where
  "get_current_url env s = (if driver (fst s) then driver_current_url env (snd s) else [])"

text \<open>\<open>str(i)\<close> for an index, and \<open>os.path.join\<close> of two parts.\<close>

definition digit_char :: "nat \<Rightarrow> char" where
  "digit_char d = ''0123456789'' ! d"

fun str_nat :: "nat \<Rightarrow> string" where
  "str_nat n = (if n < 10 then [digit_char n] else str_nat (n div 10) @ [digit_char (n mod 10)])"

declare str_nat.simps [simp del]

definition path_join :: "string \<Rightarrow> string \<Rightarrow> string" where
  "path_join a b =
     (if b \<noteq> [] \<and> hd b = CHR ''/'' then b
      else if a = [] \<or> last a = CHR ''/'' then a @ b
      else a @ ''/'' @ b)"

definition save_screenshot :: "'x env \<Rightarrow> string \<Rightarrow> 'x exec_state \<Rightarrow> string \<times> 'x exec_state" where
  "save_screenshot env name s =
     (let (ts, w1) = now_strftime env ''%Y%m%d_%H%M%S'' (snd s);
          filename = name @ ''_'' @ ts @ ''.png'';
          filepath = path_join (screenshot_dir (fst s)) filename;
          w2 = (if driver (fst s) then driver_save_screenshot env filepath w1 else w1)
      in (filepath, (fst s, w2)))"

text \<open>\<open>str(e)\<close> of the AttributeError raised by a call on a driver that is \<open>None\<close>.\<close>

definition no_attribute :: "string \<Rightarrow> string" where
  "no_attribute a = key_error ''NoneType'' @ '' object has no attribute '' @ key_error a"

definition action_open :: "'x env \<Rightarrow> string \<Rightarrow> 'x exec_state \<Rightarrow> (unit, 'x exec_state) res" where
  "action_open env u s =
     (if \<not> driver (fst s) then Raise (no_attribute ''get'') s
      else and_then (in_world (driver_get env u) s) (\<lambda>r s1. in_world (time_sleep env 1) s1))"

definition action_type ::
  "'x env \<Rightarrow> string \<Rightarrow> string \<Rightarrow> 'x exec_state \<Rightarrow> (unit, 'x exec_state) res" where
  "action_type env sel v s =
     (if \<not> driver (fst s) then Raise (no_attribute ''find_element'') s
      else in_world (wait_and_type env (timeout (fst s)) sel v) s)"

definition action_click :: "'x env \<Rightarrow> string \<Rightarrow> 'x exec_state \<Rightarrow> (unit, 'x exec_state) res" where
  "action_click env sel s =
     (if \<not> driver (fst s) then Raise (no_attribute ''find_element'') s
      else in_world (wait_and_click env (timeout (fst s)) sel) s)"

definition action_wait :: "'x env \<Rightarrow> int \<Rightarrow> 'x exec_state \<Rightarrow> (unit, 'x exec_state) res" where
  "action_wait env seconds s = in_world (time_sleep env seconds) s"

text \<open>
  The \<open>if\<close>/\<open>elif\<close> chain of \<open>_execute_step\<close>: the action of the step, with the \<open>KeyError\<close> of
  a key the step lacks and the \<open>ValueError\<close> of an unknown action. It returns the step, which
  a screenshot action has written its path into.
\<close>

definition dispatch :: "'x env \<Rightarrow> nat \<Rightarrow> step \<Rightarrow> 'x exec_state \<Rightarrow> (step, 'x exec_state) res" where
  "dispatch env i st s =
     (if step_action st = Some ''open'' then
        (case step_url st of
           None \<Rightarrow> Raise (key_error ''url'') s
         | Some u \<Rightarrow> and_then (action_open env u s) (\<lambda>r s1. Return st s1))
      else if step_action st = Some ''type'' then
        (case step_selector st of
           None \<Rightarrow> Raise (key_error ''selector'') s
         | Some sel \<Rightarrow>
             (case step_value st of
                None \<Rightarrow> Raise (key_error ''value'') s
              | Some v \<Rightarrow> and_then (action_type env sel v s) (\<lambda>r s1. Return st s1)))
      else if step_action st = Some ''click'' then
        (case step_selector st of
           None \<Rightarrow> Raise (key_error ''selector'') s
         | Some sel \<Rightarrow> and_then (action_click env sel s) (\<lambda>r s1. Return st s1))
      else if step_action st = Some ''wait'' then
        (case step_seconds st of
           None \<Rightarrow> Raise (key_error ''seconds'') s
         | Some n \<Rightarrow> and_then (action_wait env n s) (\<lambda>r s1. Return st s1))
      else if step_action st = Some ''screenshot'' then
        (let (path, s1) = save_screenshot env (''step_'' @ str_nat i) s
         in Return (st\<lparr>step_screenshot_path := Some path\<rparr>) s1)
      else
        Raise (''Unknown action: '' @ (case step_action st of None \<Rightarrow> ''None'' | Some a \<Rightarrow> a)) s)"

text \<open>The three events of \<open>_execute_step\<close>, each stamped with the clock as it is built.\<close>

definition started_event :: "'x env \<Rightarrow> nat \<Rightarrow> step \<Rightarrow> 'x exec_state \<Rightarrow> StepEvent \<times> 'x exec_state" where
  "started_event env i st s =
     (let (ts, w1) = now_isoformat env (snd s)
      in (\<lparr>step_index = int i, action = step_action st, status = ''started'', timestamp = ts,
           selector = step_selector st,
           url = (if driver (fst s) then Some (driver_current_url env w1) else None),
           val = step_value st, error = None, screenshot_path = None\<rparr>, (fst s, w1)))"

definition success_event :: "'x env \<Rightarrow> nat \<Rightarrow> step \<Rightarrow> 'x exec_state \<Rightarrow> (StepEvent, 'x exec_state) res" where
  "success_event env i st s =
     (let (ts, w1) = now_isoformat env (snd s)
      in if \<not> driver (fst s) then Raise (no_attribute ''current_url'') (fst s, w1)
         else Return \<lparr>step_index = int i, action = step_action st, status = ''success'',
                timestamp = ts, selector = step_selector st,
                url = Some (driver_current_url env w1), val = None, error = None,
                screenshot_path = step_screenshot_path st\<rparr> (fst s, w1))"

definition failed_event ::
  "'x env \<Rightarrow> nat \<Rightarrow> string option \<Rightarrow> step \<Rightarrow> string \<Rightarrow> string \<Rightarrow> 'x exec_state
     \<Rightarrow> StepEvent \<times> 'x exec_state" where
  "failed_event env i act st msg path s =
     (let (ts, w1) = now_isoformat env (snd s)
      in (\<lparr>step_index = int i, action = act, status = ''failed'', timestamp = ts,
           selector = step_selector st,
           url = (if driver (fst s) then Some (driver_current_url env w1) else None),
           val = None, error = Some msg, screenshot_path = Some path\<rparr>, (fst s, w1)))"

text \<open>The handler of \<open>except Exception as e\<close> in \<open>_execute_step\<close>.\<close>

definition step_failed ::
  "'x env \<Rightarrow> nat \<Rightarrow> step \<Rightarrow> string \<Rightarrow> 'x exec_state \<Rightarrow> (bool \<times> step, 'x exec_state) res" where
  "step_failed env i st e s =
     (let (path, s1) = save_screenshot env (''error_step_'' @ str_nat i) s;
          (ev, s2) = failed_event env i (step_action st) st e path s1
      in and_then (emit_event ev s2) (\<lambda>r s3. Return (False, st) s3))"

text \<open>
  \<open>_execute_step\<close>: the started event, then the \<open>try\<close> block (the action, the success event
  and its emit), any exception of which goes to the handler. The result is the boolean the
  method returns, with the step as the method leaves it.
\<close>

definition begin_step :: "'x env \<Rightarrow> nat \<Rightarrow> step \<Rightarrow> 'x exec_state \<Rightarrow> (unit, 'x exec_state) res" where
  "begin_step env i st s = (let (ev, s0) = started_event env i st s in emit_event ev s0)"

definition execute_step ::
  "'x env \<Rightarrow> nat \<Rightarrow> step \<Rightarrow> 'x exec_state \<Rightarrow> (bool \<times> step, 'x exec_state) res" where
  "execute_step env i st s =
     and_then (begin_step env i st s) (\<lambda>r s1.
       case dispatch env i st s1 of
         Raise e s2 \<Rightarrow> step_failed env i st e s2
       | Return st1 s2 \<Rightarrow>
           (case success_event env i st1 s2 of
              Raise e s3 \<Rightarrow> step_failed env i st1 e s3
            | Return ok s3 \<Rightarrow>
                (case emit_event ok s3 of
                   Raise e s4 \<Rightarrow> step_failed env i st1 e s4
                 | Return r1 s4 \<Rightarrow> Return (True, st1) s4)))"

text \<open>
  The loop of \<open>execute_plan\<close> over \<open>enumerate(steps)\<close>, from index \<open>i\<close> on. Besides the
  boolean it returns the steps as the loop leaves them.
\<close>

fun run_steps ::
  "'x env \<Rightarrow> nat \<Rightarrow> step list \<Rightarrow> 'x exec_state \<Rightarrow> (bool \<times> step list, 'x exec_state) res" where
  "run_steps env i [] s = Return (True, []) s"
| "run_steps env i (st # rest) s =
     (case execute_step env i st s of
        Raise e s1 \<Rightarrow> Raise e s1
      | Return b_st s1 \<Rightarrow>
          if \<not> fst b_st then
            (let (path, s2) = save_screenshot env (''error_step_'' @ str_nat i) s1;
                 (ev, s3) = failed_event env i
                    (case step_action (snd b_st) of None \<Rightarrow> Some ''unknown'' | Some a \<Rightarrow> Some a)
                    (snd b_st) ''Step execution failed'' path s2
             in and_then (emit_event ev s3) (\<lambda>r s4. Return (False, snd b_st # rest) s4))
          else
            and_then (run_steps env (Suc i) rest s1)
              (\<lambda>b_rest s2. Return (fst b_rest, snd b_st # snd b_rest) s2))"

text \<open>\<open>plan.get("steps", [])\<close>, and the start of the browser when there is none.\<close>

definition plan_steps :: "plan \<Rightarrow> step list" where
  "plan_steps p = (case steps p of None \<Rightarrow> [] | Some xs \<Rightarrow> xs)"

definition ensure_browser :: "'x env \<Rightarrow> 'x exec_state \<Rightarrow> 'x exec_state" where
  "ensure_browser env s = (if \<not> driver (fst s) then start_browser env s else s)"

text \<open>\<open>execute_plan\<close>: the boolean it returns, with the plan as it leaves it (the steps are
  the plan's own list, or the fresh default list, which is dropped).\<close>

definition execute_plan ::
  "'x env \<Rightarrow> plan \<Rightarrow> 'x exec_state \<Rightarrow> (bool \<times> plan, 'x exec_state) res" where
  "execute_plan env p s =
     and_then (run_steps env 0 (plan_steps p) (ensure_browser env s))
       (\<lambda>b_steps s1.
          Return (fst b_steps,
                  (case steps p of None \<Rightarrow> p | Some xs \<Rightarrow> p\<lparr>steps := Some (snd b_steps)\<rparr>)) s1)"

section \<open>openrouter_planner.py: OpenRouterPlanner\<close>

text \<open>The checks of \<open>get_task_plan\<close> on the decoded plan: the message of the first
  \<open>ValueError\<close>, or \<open>None\<close> when the plan passes.\<close>

definition validate_step :: "step \<Rightarrow> string option" where
  "validate_step st =
     (case step_action st of
        None \<Rightarrow> Some (''Each step must have '' @ key_error ''action'' @ '' key'')
      | Some a \<Rightarrow>
          if a \<notin> set [''open'', ''type'', ''click'', ''wait'', ''screenshot'']
            then Some (''Invalid action: '' @ a)
          else if a = ''open'' \<and> step_url st = None
            then Some (key_error ''open'' @ '' action requires '' @ key_error ''url'')
          else if a = ''type'' \<and> (step_selector st = None \<or> step_value st = None)
            then Some (key_error ''type'' @ '' action requires '' @ key_error ''selector''
                       @ '' and '' @ key_error ''value'')
          else if a = ''click'' \<and> step_selector st = None
            then Some (key_error ''click'' @ '' action requires '' @ key_error ''selector'')
          else if a = ''wait'' \<and> step_seconds st = None
            then Some (key_error ''wait'' @ '' action requires '' @ key_error ''seconds'')
          else None)"

fun validate_steps :: "step list \<Rightarrow> string option" where
  "validate_steps [] = None"
| "validate_steps (st # rest) =
     (case validate_step st of Some msg \<Rightarrow> Some msg | None \<Rightarrow> validate_steps rest)"

definition validate_plan :: "plan \<Rightarrow> string option" where
  "validate_plan p =
     (case steps p of
        None \<Rightarrow> Some (''Plan must contain '' @ key_error ''steps'' @ '' key'')
      | Some xs \<Rightarrow> validate_steps xs)"

definition get_task_plan :: "'x env \<Rightarrow> string \<Rightarrow> 'x \<Rightarrow> (plan, 'x) res" where
  "get_task_plan env user_prompt w =
     (case request_plan env user_prompt w of
        Raise e w1 \<Rightarrow> Raise e w1
      | Return p w1 \<Rightarrow>
          (case validate_plan p of
             Some msg \<Rightarrow> Raise (''Planning error: '' @ msg) w1
           | None \<Rightarrow> Return p w1))"

text \<open>\<open>xs[i]\<close> of Python: a negative index counts from the end, an index out of range
  raises \<open>IndexError\<close> (\<open>None\<close> here).\<close>

definition py_index :: "'a list \<Rightarrow> int \<Rightarrow> 'a option" where
  "py_index xs i =
     (let n = int (length xs); j = (if i < 0 then n + i else i)
      in if 0 \<le> j \<and> j < n then Some (xs ! nat j) else None)"

definition refine_plan_with_error ::
  "'x env \<Rightarrow> plan \<Rightarrow> int \<Rightarrow> string \<Rightarrow> string option \<Rightarrow> 'x \<Rightarrow> (plan, 'x) res" where
  "refine_plan_with_error env original_plan error_step error_msg dom_snippet w =
     (case steps original_plan of
        None \<Rightarrow> Raise (key_error ''steps'') w
      | Some xs \<Rightarrow>
          (case py_index xs error_step of
             None \<Rightarrow> Raise ''list index out of range'' w
           | Some st \<Rightarrow>
               get_task_plan env
                 (refine_context env error_step error_msg st
                    (if truthy dom_snippet then Some (take 500 (the dom_snippet)) else None))
                 w))"

section \<open>orchestrator.py: AISeleniumOrchestrator\<close>

text \<open>
  The orchestrator's monitor is the monitor of its executor (one object), so the record
  holds it once, in the executor.
\<close>

record 'x AISeleniumOrchestrator =
  executor :: "'x SeleniumExecutor"
  auto_retry :: bool
  max_retries :: int

text \<open>
  The state of a run of \<open>execute_task\<close>: the executor and the world, and before them a
  record the source does not keep, added to state properties of the attempts: the result of
  every call of \<open>execute_plan\<close> so far, in order (\<open>True\<close> when it returned \<open>True\<close>).
\<close>

type_synonym 'x run_state = "bool list \<times> 'x exec_state"

text \<open>\<open>_print_summary\<close>: what it prints is dropped, the exceptions of its lookups and of its
  division are kept.\<close>

definition print_summary :: "'x run_state \<Rightarrow> (unit, 'x run_state) res" where
  "print_summary rs =
     (let st = get_current_status (monitor (fst (snd rs)))
      in case sd_completed st of
           None \<Rightarrow> Raise (key_error ''completed'') rs
         | Some c \<Rightarrow>
             (case sd_failed st of
                None \<Rightarrow> Raise (key_error ''failed'') rs
              | Some f \<Rightarrow>
                  if sd_total_steps st = 0 then Raise ''division by zero'' rs
                  else Return () rs))"

text \<open>Step 1 of \<open>execute_task\<close>, the body of its first \<open>try\<close>: the plan of the planner, the
  length of its steps and \<open>_print_plan\<close> (of which only the lookup of \<open>"steps"\<close> can raise).\<close>

definition planning :: "'x env \<Rightarrow> string \<Rightarrow> 'x \<Rightarrow> (plan, 'x) res" where
  "planning env user_prompt w =
     (case get_task_plan env user_prompt w of
        Raise e w1 \<Rightarrow> Raise e w1
      | Return p w1 \<Rightarrow>
          (case steps p of
             None \<Rightarrow> Raise (key_error ''steps'') w1
           | Some xs \<Rightarrow> Return p w1))"

text \<open>\<open>self.executor.execute_plan(plan)\<close>, recorded as an attempt.\<close>

definition attempt :: "'x env \<Rightarrow> plan \<Rightarrow> 'x run_state \<Rightarrow> (bool \<times> plan, 'x run_state) res" where
  "attempt env p rs =
     (case execute_plan env p (snd rs) of
        Return b_p s1 \<Rightarrow> Return b_p (fst rs @ [fst b_p], s1)
      | Raise e s1 \<Rightarrow> Raise e (fst rs @ [False], s1))"

text \<open>The call of \<open>refine_plan_with_error\<close> in the recovery, for the last failed event
  of the log.\<close>

definition refinement :: "'x env \<Rightarrow> plan \<Rightarrow> 'x run_state \<Rightarrow> (plan, 'x) res" where
  "refinement env p rs =
     (let s = snd rs;
          last_failure = last (filter (\<lambda>e. status e = ''failed'') (events (monitor (fst s))));
          dom_snippet =
            (if driver (fst s) then Some (take 1000 (get_page_source env s)) else None)
      in refine_plan_with_error env p (step_index last_failure)
           (if truthy (error last_failure) then the (error last_failure) else ''Unknown error'')
           dom_snippet (snd s))"

text \<open>The body of the \<open>try\<close> of the recovery: the plan to go on with.\<close>

definition recover :: "'x env \<Rightarrow> plan \<Rightarrow> 'x run_state \<Rightarrow> (plan, 'x run_state) res" where
  "recover env p rs =
     (if filter (\<lambda>e. status e = ''failed'') (events (monitor (fst (snd rs)))) \<noteq> [] then
        (case refinement env p rs of
           Return p1 w1 \<Rightarrow> Return p1 (fst rs, fst (snd rs), w1)
         | Raise e w1 \<Rightarrow> Raise e (fst rs, fst (snd rs), w1))
      else Return p rs)"

text \<open>
  The \<open>while\<close> loop of \<open>execute_task\<close>. \<open>ar\<close> and \<open>mr\<close> are \<open>self.auto_retry\<close> and
  \<open>self.max_retries\<close>, which nothing writes during a run.
\<close>

function retry_loop ::
  "'x env \<Rightarrow> bool \<Rightarrow> int \<Rightarrow> plan \<Rightarrow> int \<Rightarrow> 'x run_state \<Rightarrow> (bool, 'x run_state) res" where
  "retry_loop env ar mr p retry_count rs =
     (if retry_count \<le> mr then
        (case attempt env p rs of
           Raise e rs1 \<Rightarrow> Raise e rs1
         | Return b_p rs1 \<Rightarrow>
             if fst b_p then and_then (print_summary rs1) (\<lambda>r rs2. Return True rs2)
             else if \<not> ar \<or> retry_count \<ge> mr then
               and_then (print_summary rs1) (\<lambda>r rs2. Return False rs2)
             else
               (case recover env (snd b_p) rs1 of
                  Raise e rs2 \<Rightarrow> Return False rs2
                | Return p1 rs2 \<Rightarrow> retry_loop env ar mr p1 (retry_count + 1) rs2))
      else Return False rs)"
  by pat_completeness auto
termination
  by (relation "measure (\<lambda>(env, ar, mr, p, retry_count, rs). nat (mr + 1 - retry_count))") auto

declare retry_loop.simps [simp del]

text \<open>
  \<open>execute_task\<close>. Its state is the record of attempts (empty at the start), the
  orchestrator and the world.
\<close>

definition execute_task ::
  "'x env \<Rightarrow> string \<Rightarrow> 'x AISeleniumOrchestrator \<times> 'x
     \<Rightarrow> (bool, bool list \<times> 'x AISeleniumOrchestrator \<times> 'x) res" where
  "execute_task env user_prompt ow =
     (case planning env user_prompt (snd ow) of
        Raise e w1 \<Rightarrow> Return False ([], fst ow, w1)
      | Return p w1 \<Rightarrow>
          (case retry_loop env (auto_retry (fst ow)) (max_retries (fst ow)) p 0
                  ([], executor (fst ow), w1) of
             Return b rs \<Rightarrow> Return b (fst rs, (fst ow)\<lparr>executor := fst (snd rs)\<rparr>, snd (snd rs))
           | Raise e rs \<Rightarrow> Raise e (fst rs, (fst ow)\<lparr>executor := fst (snd rs)\<rparr>, snd (snd rs))))"

section \<open>Notions the properties are stated with\<close>

text \<open>What a log says of the course of a run: the index and the status of each event.\<close>

definition tag :: "StepEvent \<Rightarrow> int \<times> string" where
  "tag e = (step_index e, status e)"

text \<open>
  The state the executor is in once the given steps were executed one after the other,
  the first of them under index \<open>i\<close>.
\<close>

fun after_steps :: "'x env \<Rightarrow> nat \<Rightarrow> step list \<Rightarrow> 'x exec_state \<Rightarrow> 'x exec_state" where
  "after_steps env i [] s = s"
| "after_steps env i (st # rest) s =
     after_steps env (Suc i) rest (res_state (execute_step env i st s))"

text \<open>The dispatched action of a step succeeds: after the started event, the action of the
  step returns rather than raises.\<close>

definition action_succeeds :: "'x env \<Rightarrow> nat \<Rightarrow> step \<Rightarrow> 'x exec_state \<Rightarrow> bool" where
  "action_succeeds env i st s = returns (dispatch env i st (res_state (begin_step env i st s)))"

text \<open>
  A log made of step attempts: every event is a started event, or the success or failed
  event that closes the started event just before it.
\<close>

fun step_attempts :: "StepEvent list \<Rightarrow> bool" where
  "step_attempts [] = True"
| "step_attempts [e] = (status e = ''started'')"
| "step_attempts (e # t # es) =
     (status e = ''started'' \<and>
      (if status t = ''success'' \<or> status t = ''failed'' then step_attempts es
       else step_attempts (t # es)))"

section \<open>A small world to run the program in\<close>

text \<open>
  The world is the journal of what was done to it. The clock of \<open>strftime\<close> shows the
  length of the journal; a page at \<open>down.test\<close> does not load, the element \<open>#missing\<close> is
  never found. The planner answers the first request with \<open>first\<close> and a request for a
  refined plan with \<open>later\<close>, and raises where that is \<open>None\<close>.
\<close>

definition demo_env :: "plan option \<Rightarrow> plan option \<Rightarrow> string list env" where
  "demo_env first later =
     \<lparr>now_isoformat = (\<lambda>w. (''2024-05-01T10:00:00.000000'', w @ [''clock''])),
      now_strftime = (\<lambda>fmt w. (''t'' @ str_nat (length w), w @ [''clock''])),
      seconds_between = (\<lambda>a b. Some 0),
      format_1f = (\<lambda>q. ''0.0''),
      chrome = (\<lambda>h w. w @ [''chrome'']),
      driver_quit = (\<lambda>w. w @ [''quit'']),
      driver_current_url = (\<lambda>w. ''http://example.test/''),
      driver_page_source = (\<lambda>w. ''<html></html>''),
      driver_get = (\<lambda>u w. if u = ''http://down.test/'' then Raise ''unreachable'' (w @ [''get''])
                           else Return () (w @ [''get''])),
      driver_save_screenshot = (\<lambda>path w. w @ [''screenshot'']),
      wait_and_type = (\<lambda>t sel v w. if sel = ''#missing'' then Raise ''timeout'' (w @ [''wait''])
                           else Return () (w @ [''type''])),
      wait_and_click = (\<lambda>t sel w. if sel = ''#missing'' then Raise ''timeout'' (w @ [''wait''])
                           else Return () (w @ [''click''])),
      time_sleep = (\<lambda>n w. if n < 0 then Raise ''sleep length must be non-negative'' w
                           else Return () (w @ [''sleep''])),
      request_plan = (\<lambda>prompt w.
         case (if prompt = ''refine'' then later else first) of
           None \<Rightarrow> Raise ''OpenRouter API error: down'' (w @ [''post''])
         | Some p \<Rightarrow> Return p (w @ [''post''])),
      refine_context = (\<lambda>i msg st dom. ''refine'')\<rparr>"

definition open_step :: "string \<Rightarrow> step" where
  "open_step u = \<lparr>step_action = Some ''open'', step_url = Some u, step_selector = None,
     step_value = None, step_seconds = None, step_screenshot_path = None\<rparr>"

definition click_step :: "string \<Rightarrow> step" where
  "click_step sel = \<lparr>step_action = Some ''click'', step_url = None, step_selector = Some sel,
     step_value = None, step_seconds = None, step_screenshot_path = None\<rparr>"

definition good_plan :: plan where
  "good_plan = \<lparr>steps = Some [open_step ''http://example.test/'', click_step ''#go'']\<rparr>"

definition bad_plan :: plan where
  "bad_plan = \<lparr>steps = Some [open_step ''http://example.test/'', click_step ''#missing'',
     click_step ''#go'']\<rparr>"

definition demo_executor :: "string list SeleniumExecutor" where
  "demo_executor = executor_init monitor_init True ''./screenshots''"

definition demo_orchestrator :: "int \<Rightarrow> string list AISeleniumOrchestrator" where
  "demo_orchestrator mr = \<lparr>executor = demo_executor, auto_retry = True, max_retries = mr\<rparr>"

definition demo_event :: "int \<Rightarrow> string \<Rightarrow> StepEvent" where
  "demo_event i st = \<lparr>step_index = i, action = Some ''click'', status = st,
     timestamp = ''2024-05-01T10:00:00.123456'', selector = Some ''#go'',
     url = Some ''http://example.test/'', val = None, error = None, screenshot_path = None\<rparr>"

text \<open>Two listeners that write their name into the journal; the second then raises.\<close>

definition quiet_listener :: "string \<Rightarrow> string list listener" where
  "quiet_listener name event w = Return () (w @ [name])"

definition broken_listener :: "string \<Rightarrow> string list listener" where
  "broken_listener name event w = Raise ''broken'' (w @ [name])"

section \<open>Properties of the monitor\<close>

lemma call_listener_returns:
  "call_listener l event w = Return () (res_state (l event w))"
  by (simp add: call_listener_def res_state_def split: res.splits)

lemma call_listeners_fold:
  "call_listeners ls event w = Return () (foldl (\<lambda>w l. res_state (l event w)) w ls)"
  by (induction ls arbitrary: w) (simp_all add: call_listener_returns)

lemma emit_returns:
  "emit event (m, w) =
     Return () (m\<lparr>events := events m @ [event], current_step := Some (step_index event)\<rparr>,
                foldl (\<lambda>w l. res_state (l event w)) w (listeners m))"
  by (simp add: emit_def Let_def call_listeners_fold)

lemma foldl_max_Max: "foldl max a xs = Max (insert a (set xs))" for a :: int
proof (induction xs arbitrary: a)
  case Nil
  then show ?case by simp
next
  case (Cons x xs)
  have "Max (insert (max a x) (set xs)) = Max (insert a (insert x (set xs)))"
    by (cases "set xs = {}") (simp_all add: max.assoc)
  with Cons show ?case by simp
qed

lemma max_step_index_Max:
  assumes "evs \<noteq> []"
  shows "max_step_index evs = Max (step_index ` set evs)"
proof -
  from assms obtain e es where "evs = e # es" by (cases evs) auto
  then show ?thesis by (simp add: foldl_max_Max)
qed

lemma reachable_current_step:
  "reachable m \<Longrightarrow>
     (events m = [] \<and> current_step m = None) \<or>
     (events m \<noteq> [] \<and> current_step m = Some (step_index (last (events m))))"
proof (induction rule: reachable.induct)
  case reach_init
  then show ?case by (simp add: monitor_init_def)
next
  case (reach_add m callback)
  then show ?case by (simp add: add_listener_def)
next
  case (reach_emit m event w)
  then show ?case by (simp add: emit_returns res_state_def)
qed

text \<open>
  C6. Whatever the listeners do, \<open>emit\<close> returns (no exception leaves it), the event is
  appended to the log and made the current step, and every listener was called with the
  event, in the order of registration, each in the world its predecessor left, whether
  that one returned or raised.
\<close>

theorem emit_survives_listeners:
  "returns (emit event (m, w)) \<and>
   events (fst (res_state (emit event (m, w)))) = events m @ [event] \<and>
   current_step (fst (res_state (emit event (m, w)))) = Some (step_index event) \<and>
   listeners (fst (res_state (emit event (m, w)))) = listeners m \<and>
   snd (res_state (emit event (m, w))) =
     foldl (\<lambda>w' l. res_state (l event w')) w (listeners m)"
  by (simp add: emit_returns returns_def res_state_def)

theorem emit_survives_listeners_witness:
  "returns (emit (demo_event 0 ''started'')
      (\<lparr>events = [], listeners = [quiet_listener ''a'', broken_listener ''b'', quiet_listener ''c''],
        current_step = None\<rparr>, [])) \<and>
   events (fst (res_state (emit (demo_event 0 ''started'')
      (\<lparr>events = [], listeners = [quiet_listener ''a'', broken_listener ''b'', quiet_listener ''c''],
        current_step = None\<rparr>, [])))) = [demo_event 0 ''started''] \<and>
   snd (res_state (emit (demo_event 0 ''started'')
      (\<lparr>events = [], listeners = [quiet_listener ''a'', broken_listener ''b'', quiet_listener ''c''],
        current_step = None\<rparr>, []))) = [''a'', ''b'', ''c'']"
  using emit_survives_listeners [of "demo_event 0 ''started''"
      "\<lparr>events = [], listeners = [quiet_listener ''a'', broken_listener ''b'', quiet_listener ''c''],
        current_step = None\<rparr>" "[]"]
  by (simp add: quiet_listener_def broken_listener_def res_state_def)

text \<open>
  C7. For a monitor a program can reach: with an empty log the status is \<open>not_started\<close>
  with \<open>total_steps = 0\<close>; otherwise \<open>total_steps\<close> is the greatest step index of the log
  plus one, \<open>completed\<close> and \<open>failed\<close> count the events of status success and failed, and
  \<open>current_step\<close> is the step index of the event emitted last.
\<close>

theorem status_of_reachable_monitor:
  assumes "reachable m"
  shows "(events m = [] \<longrightarrow>
            sd_status (get_current_status m) = ''not_started'' \<and>
            sd_total_steps (get_current_status m) = 0) \<and>
         (events m \<noteq> [] \<longrightarrow>
            sd_total_steps (get_current_status m) = Max (step_index ` set (events m)) + 1 \<and>
            sd_completed (get_current_status m) =
              Some (length (filter (\<lambda>e. status e = ''success'') (events m))) \<and>
            sd_failed (get_current_status m) =
              Some (length (filter (\<lambda>e. status e = ''failed'') (events m))) \<and>
            sd_current_step (get_current_status m) =
              Some (Some (step_index (last (events m)))))"
  using reachable_current_step [OF assms]
  by (auto simp add: get_current_status_def Let_def max_step_index_Max)

theorem status_of_reachable_monitor_witness:
  "sd_total_steps (get_current_status (fst (res_state (emit (demo_event 0 ''success'')
      (fst (res_state (emit (demo_event 3 ''failed'') (monitor_init, [''w'']))), [''w'']))))) = 4 \<and>
   sd_completed (get_current_status (fst (res_state (emit (demo_event 0 ''success'')
      (fst (res_state (emit (demo_event 3 ''failed'') (monitor_init, [''w'']))), [''w'']))))) = Some 1 \<and>
   sd_failed (get_current_status (fst (res_state (emit (demo_event 0 ''success'')
      (fst (res_state (emit (demo_event 3 ''failed'') (monitor_init, [''w'']))), [''w'']))))) = Some 1 \<and>
   sd_current_step (get_current_status (fst (res_state (emit (demo_event 0 ''success'')
      (fst (res_state (emit (demo_event 3 ''failed'') (monitor_init, [''w'']))), [''w'']))))) = Some (Some 0) \<and>
   sd_status (get_current_status (monitor_init :: string list RuntimeMonitor)) = ''not_started'' \<and>
   sd_total_steps (get_current_status (monitor_init :: string list RuntimeMonitor)) = 0"
proof -
  have r0: "reachable (monitor_init :: string list RuntimeMonitor)"
    by (rule reach_init)
  have r2: "reachable (fst (res_state (emit (demo_event 0 ''success'')
      (fst (res_state (emit (demo_event 3 ''failed'') (monitor_init, [''w'']))), [''w'']))))"
    by (rule reach_emit, rule reach_emit, rule reach_init)
  show ?thesis
    using status_of_reachable_monitor [OF r0] status_of_reachable_monitor [OF r2]
    by (simp add: emit_returns res_state_def monitor_init_def demo_event_def)
qed

text \<open>
  C10. No operation of the monitor resets \<open>current_step\<close>: once it is set, it is set after
  \<open>add_listener\<close> and after \<open>emit\<close>. So a reachable monitor with an event in its log has
  \<open>current_step\<close> set and reports the status \<open>running\<close>; no reachable monitor reports
  \<open>stopped\<close>.
\<close>

theorem current_step_never_reset:
  assumes "reachable m"
  shows "(current_step m \<noteq> None \<longrightarrow>
            current_step (add_listener callback m) \<noteq> None \<and>
            current_step (fst (res_state (emit event (m, w)))) \<noteq> None) \<and>
         (events m \<noteq> [] \<longrightarrow>
            current_step m \<noteq> None \<and> sd_status (get_current_status m) = ''running'') \<and>
         sd_status (get_current_status m) \<noteq> ''stopped''"
  using reachable_current_step [OF assms]
  by (auto simp add: get_current_status_def Let_def add_listener_def emit_returns res_state_def)

theorem current_step_never_reset_witness:
  "current_step (fst (res_state (emit (demo_event 1 ''started'')
      (add_listener (quiet_listener ''a'') monitor_init, [])))) = Some 1 \<and>
   current_step (add_listener (broken_listener ''b'') (fst (res_state (emit (demo_event 1 ''started'')
      (add_listener (quiet_listener ''a'') monitor_init, []))))) \<noteq> None \<and>
   current_step (fst (res_state (emit (demo_event 2 ''failed'')
      (fst (res_state (emit (demo_event 1 ''started'')
        (add_listener (quiet_listener ''a'') monitor_init, []))), [])))) \<noteq> None \<and>
   sd_status (get_current_status (fst (res_state (emit (demo_event 1 ''started'')
      (add_listener (quiet_listener ''a'') monitor_init, []))))) = ''running''"
proof -
  have r: "reachable (fst (res_state (emit (demo_event 1 ''started'')
      (add_listener (quiet_listener ''a'') monitor_init, []))))"
    by (rule reach_emit, rule reach_add, rule reach_init)
  show ?thesis
    using current_step_never_reset [OF r, of "broken_listener ''b''" "demo_event 2 ''failed''" "[]"]
    by (simp add: emit_returns res_state_def monitor_init_def add_listener_def demo_event_def)
qed

section \<open>Properties of the reporter\<close>

lemma summary_fields:
  "total_steps (fst (generate_summary env r w)) =
     length (filter (\<lambda>e. status e = ''started'') (rep_events r))"
  "successful_steps (fst (generate_summary env r w)) =
     length (filter (\<lambda>e. status e = ''success'') (rep_events r))"
  "failed_steps (fst (generate_summary env r w)) =
     length (filter (\<lambda>e. status e = ''failed'') (rep_events r))"
  "success_rate (fst (generate_summary env r w)) =
     round2 (if length (filter (\<lambda>e. status e = ''started'') (rep_events r)) > 0
             then of_nat (length (filter (\<lambda>e. status e = ''success'') (rep_events r)))
                  / of_nat (length (filter (\<lambda>e. status e = ''started'') (rep_events r))) * 100
             else 0)"
  "execution_id (fst (generate_summary env r w)) = fst (generate_execution_id env r w)"
  by (simp_all add: generate_summary_def Let_def split: prod.splits)

lemma round2_zero: "round2 0 = 0"
  by (simp add: round2_def round_half_even_def)

lemma step_attempts_counts:
  "step_attempts evs \<Longrightarrow>
     length (filter (\<lambda>e. status e = ''success'') evs)
       + length (filter (\<lambda>e. status e = ''failed'') evs)
     \<le> length (filter (\<lambda>e. status e = ''started'') evs)"
proof (induction evs rule: step_attempts.induct)
  case 1
  then show ?case by simp
next
  case (2 e)
  then show ?case by simp
next
  case (3 e t es)
  then show ?case by (auto split: if_splits)
qed

text \<open>
  C4 (as stated). A log that holds a single failed event has one failed step and no step
  in total.
\<close>

theorem summary_counts_counterexample:
  "\<not> (successful_steps (fst (generate_summary (demo_env None None)
          (reporter_init [demo_event 0 ''failed'']) []))
        + failed_steps (fst (generate_summary (demo_env None None)
          (reporter_init [demo_event 0 ''failed'']) []))
      \<le> total_steps (fst (generate_summary (demo_env None None)
          (reporter_init [demo_event 0 ''failed'']) [])))"
  by (simp add: summary_fields reporter_init_def demo_event_def)

text \<open>
  C4 (amended). For every log the success rate is 0 when \<open>total_steps\<close> is 0; and for
  every log made of step attempts (each success or failed event closes the started event
  just before it) \<open>successful_steps + failed_steps \<le> total_steps\<close>.
\<close>

theorem summary_counts:
  "(total_steps (fst (generate_summary env r w)) = 0 \<longrightarrow>
      success_rate (fst (generate_summary env r w)) = 0) \<and>
   (step_attempts (rep_events r) \<longrightarrow>
      successful_steps (fst (generate_summary env r w))
        + failed_steps (fst (generate_summary env r w))
      \<le> total_steps (fst (generate_summary env r w)))"
  by (simp add: summary_fields round2_zero step_attempts_counts)

theorem summary_counts_witness:
  "total_steps (fst (generate_summary (demo_env None None) (reporter_init []) [])) = 0 \<and>
   success_rate (fst (generate_summary (demo_env None None) (reporter_init []) [])) = 0 \<and>
   step_attempts (rep_events (reporter_init
      [demo_event 0 ''started'', demo_event 0 ''success'',
       demo_event 1 ''started'', demo_event 1 ''failed''])) \<and>
   successful_steps (fst (generate_summary (demo_env None None) (reporter_init
      [demo_event 0 ''started'', demo_event 0 ''success'',
       demo_event 1 ''started'', demo_event 1 ''failed'']) []))
     + failed_steps (fst (generate_summary (demo_env None None) (reporter_init
      [demo_event 0 ''started'', demo_event 0 ''success'',
       demo_event 1 ''started'', demo_event 1 ''failed'']) []))
     \<le> total_steps (fst (generate_summary (demo_env None None) (reporter_init
      [demo_event 0 ''started'', demo_event 0 ''success'',
       demo_event 1 ''started'', demo_event 1 ''failed'']) []))"
proof -
  have t0: "total_steps (fst (generate_summary (demo_env None None) (reporter_init []) [])) = 0"
    by (simp add: summary_fields reporter_init_def)
  have sa: "step_attempts (rep_events (reporter_init
      [demo_event 0 ''started'', demo_event 0 ''success'',
       demo_event 1 ''started'', demo_event 1 ''failed'']))"
    by (simp add: reporter_init_def demo_event_def)
  show ?thesis
    using t0 sa
      summary_counts [of "demo_env None None" "reporter_init []" "[]"]
      summary_counts [of "demo_env None None" "reporter_init
        [demo_event 0 ''started'', demo_event 0 ''success'',
         demo_event 1 ''started'', demo_event 1 ''failed'']" "[]"]
    by simp
qed

lemma execution_id_of_start:
  "truthy (start_time r) \<Longrightarrow>
     generate_execution_id env r w =
       (''exec_'' @ take 15 (remove_char (CHR ''.'') (remove_char (CHR ''-'')
          (remove_char (CHR '':'') (the (start_time r))))), w)"
  by (simp add: generate_execution_id_def)

lemma summary_of_start:
  "truthy (start_time r) \<Longrightarrow>
     generate_summary env r w1 = (fst (generate_summary env r w2), w1)"
  by (simp add: generate_summary_def Let_def execution_id_of_start)

text \<open>
  C5 (as stated). On the empty log the reporter takes the execution id from the clock: the
  summary generated first and the one generated right after it, in the world the first
  call left, have different ids.
\<close>

theorem summary_twice_counterexample:
  "execution_id (fst (generate_summary (demo_env None None) (reporter_init []) []))
   \<noteq> execution_id (fst (generate_summary (demo_env None None) (reporter_init [])
         (snd (generate_summary (demo_env None None) (reporter_init []) []))))"
  by (simp add: summary_fields generate_summary_def generate_execution_id_def Let_def
      reporter_init_def truthy_def demo_env_def str_nat.simps digit_char_def)

text \<open>
  C5 (amended). For every log whose first event has a non-empty timestamp, the summary
  does not depend on when it is generated: two calls, in any two worlds, give the same
  summary, and the call reads no clock; the execution id is \<open>exec_\<close> followed by the first
  15 characters of that timestamp without its colons, dashes and dots.
\<close>

theorem summary_twice:
  assumes "evs \<noteq> []" and "timestamp (hd evs) \<noteq> []"
  shows "fst (generate_summary env (reporter_init evs) w1)
           = fst (generate_summary env (reporter_init evs) w2) \<and>
         snd (generate_summary env (reporter_init evs) w1) = w1 \<and>
         execution_id (fst (generate_summary env (reporter_init evs) w1)) =
           ''exec_'' @ take 15 (remove_char (CHR ''.'') (remove_char (CHR ''-'')
              (remove_char (CHR '':'') (timestamp (hd evs)))))"
proof -
  have st: "start_time (reporter_init evs) = Some (timestamp (hd evs))"
    using assms by (simp add: reporter_init_def)
  then have tr: "truthy (start_time (reporter_init evs))"
    using assms by (simp add: truthy_def)
  have "generate_summary env (reporter_init evs) w1
          = (fst (generate_summary env (reporter_init evs) w2), w1)"
    by (rule summary_of_start [OF tr])
  moreover have "execution_id (fst (generate_summary env (reporter_init evs) w1)) =
           ''exec_'' @ take 15 (remove_char (CHR ''.'') (remove_char (CHR ''-'')
              (remove_char (CHR '':'') (timestamp (hd evs)))))"
    using tr st by (simp add: summary_fields execution_id_of_start)
  ultimately show ?thesis by simp
qed

theorem summary_twice_witness:
  "fst (generate_summary (demo_env None None)
      (reporter_init [demo_event 0 ''started'', demo_event 0 ''success'']) [])
     = fst (generate_summary (demo_env None None)
      (reporter_init [demo_event 0 ''started'', demo_event 0 ''success'']) [''later'']) \<and>
   execution_id (fst (generate_summary (demo_env None None)
      (reporter_init [demo_event 0 ''started'', demo_event 0 ''success'']) []))
     = ''exec_20240501T100000''"
proof -
  have ne: "[demo_event 0 ''started'', demo_event 0 ''success''] \<noteq> []" by simp
  have ts: "timestamp (hd [demo_event 0 ''started'', demo_event 0 ''success'']) \<noteq> []"
    by (simp add: demo_event_def)
  have eid: "''exec_'' @ take 15 (remove_char (CHR ''.'') (remove_char (CHR ''-'')
      (remove_char (CHR '':'')
        (timestamp (hd [demo_event 0 ''started'', demo_event 0 ''success''])))))
      = ''exec_20240501T100000''"
    by (simp add: demo_event_def remove_char_def)
  from summary_twice [OF ne ts, of "demo_env None None" "[]" "[''later'']"]
  show ?thesis
    unfolding eid by blast
qed

section \<open>Properties of the executor\<close>

lemma emit_event_returns:
  "emit_event ev s =
     Return () ((fst s)\<lparr>monitor := (monitor (fst s))
                   \<lparr>events := events (monitor (fst s)) @ [ev],
                    current_step := Some (step_index ev)\<rparr>\<rparr>,
                foldl (\<lambda>w l. res_state (l ev w)) (snd s) (listeners (monitor (fst s))))"
  by (simp add: emit_event_def emit_returns)

lemma save_screenshot_executor: "fst (snd (save_screenshot env name s)) = fst s"
  by (simp add: save_screenshot_def Let_def split: prod.splits)

lemma in_world_executor: "fst (res_state (in_world f s)) = fst s"
  by (simp add: in_world_def res_state_def split: res.splits)

lemma action_open_executor: "fst (res_state (action_open env u s)) = fst s"
  by (simp add: action_open_def in_world_def and_then_def res_state_def split: res.splits)

lemma dispatch_executor: "fst (res_state (dispatch env i st s)) = fst s"
proof -
  have scr: "fst (res_state (case save_screenshot env n s of
      (path, s1) \<Rightarrow> Return (st\<lparr>step_screenshot_path := Some path\<rparr>) s1)) = fst s" for n
    using save_screenshot_executor [of env n s]
    by (cases "save_screenshot env n s") (auto simp add: res_state_def)
  have lift: "fst (res_state (and_then r (\<lambda>u s1. Return st s1))) = fst (res_state r)"
    for r :: "(unit, 'a exec_state) res"
    by (simp add: and_then_def res_state_def split: res.splits)
  show ?thesis
    unfolding dispatch_def
    by (simp add: lift scr action_open_executor action_type_def action_click_def
        action_wait_def in_world_executor Let_def
        split: option.splits)
      (simp add: res_state_def)
qed

lemma begin_step_returns:
  "\<exists>s' ev. begin_step env i st s = Return () s' \<and>
     events (monitor (fst s')) = events (monitor (fst s)) @ [ev] \<and>
     tag ev = (int i, ''started'') \<and> driver (fst s') = driver (fst s)"
  by (simp add: begin_step_def started_event_def emit_event_returns tag_def Let_def
      split: prod.splits)

lemma step_failed_returns:
  "\<exists>s' ev. step_failed env i st e s = Return (False, st) s' \<and>
     events (monitor (fst s')) = events (monitor (fst s)) @ [ev] \<and>
     tag ev = (int i, ''failed'') \<and> driver (fst s') = driver (fst s)"
proof -
  obtain path s1 where sc: "save_screenshot env (''error_step_'' @ str_nat i) s = (path, s1)"
    by (cases "save_screenshot env (''error_step_'' @ str_nat i) s")
  then have s1: "fst s1 = fst s"
    using save_screenshot_executor [of env "''error_step_'' @ str_nat i" s] by simp
  show ?thesis
    unfolding step_failed_def sc
    by (simp add: failed_event_def emit_event_returns tag_def Let_def
        and_then_def s1 split: prod.splits)
qed

lemma success_event_returns:
  "driver (fst s) \<Longrightarrow>
     \<exists>ev s'. success_event env i st s = Return ev s' \<and> tag ev = (int i, ''success'') \<and>
       fst s' = fst s"
  by (simp add: success_event_def tag_def Let_def split: prod.splits)

lemma execute_step_success:
  assumes "driver (fst s)" and "action_succeeds env i st s"
  shows "\<exists>st1 s' new. execute_step env i st s = Return (True, st1) s' \<and>
     events (monitor (fst s')) = events (monitor (fst s)) @ new \<and>
     map tag new = [(int i, ''started''), (int i, ''success'')] \<and>
     driver (fst s')"
proof -
  obtain s1 ev1 where b: "begin_step env i st s = Return () s1"
    and e1: "events (monitor (fst s1)) = events (monitor (fst s)) @ [ev1]"
    and t1: "tag ev1 = (int i, ''started'')" and d1: "driver (fst s1) = driver (fst s)"
    using begin_step_returns [of env i st s] by blast
  from assms(2) b obtain st1 s2 where d: "dispatch env i st s1 = Return st1 s2"
    by (auto simp add: action_succeeds_def returns_def res_state_def split: res.splits)
  have s2: "fst s2 = fst s1"
    using dispatch_executor [of env i st s1] d by (simp add: res_state_def)
  with d1 assms(1) have "driver (fst s2)" by simp
  then obtain ev2 s3 where se: "success_event env i st1 s2 = Return ev2 s3"
    and t2: "tag ev2 = (int i, ''success'')" and s3: "fst s3 = fst s2"
    using success_event_returns [of s2 env i st1] by blast
  have "execute_step env i st s =
      Return (True, st1) ((fst s3)\<lparr>monitor := (monitor (fst s3))
                   \<lparr>events := events (monitor (fst s3)) @ [ev2],
                    current_step := Some (step_index ev2)\<rparr>\<rparr>,
                foldl (\<lambda>w l. res_state (l ev2 w)) (snd s3) (listeners (monitor (fst s3))))"
    by (simp add: execute_step_def b and_then_def d se emit_event_returns)
  moreover have "events (monitor (fst s3)) @ [ev2] = events (monitor (fst s)) @ [ev1, ev2]"
    using s3 s2 e1 by simp
  moreover have "driver (fst s3)"
    using s3 s2 d1 assms(1) by simp
  ultimately show ?thesis
    using t1 t2 by (intro exI [of _ st1] exI [of _ "[ev1, ev2]"] exI) auto
qed

lemma execute_step_failure:
  assumes "\<not> action_succeeds env i st s"
  shows "\<exists>s' new. execute_step env i st s = Return (False, st) s' \<and>
     events (monitor (fst s')) = events (monitor (fst s)) @ new \<and>
     map tag new = [(int i, ''started''), (int i, ''failed'')] \<and>
     driver (fst s') = driver (fst s)"
proof -
  obtain s1 ev1 where b: "begin_step env i st s = Return () s1"
    and e1: "events (monitor (fst s1)) = events (monitor (fst s)) @ [ev1]"
    and t1: "tag ev1 = (int i, ''started'')" and d1: "driver (fst s1) = driver (fst s)"
    using begin_step_returns [of env i st s] by blast
  from assms b obtain e s2 where d: "dispatch env i st s1 = Raise e s2"
    by (auto simp add: action_succeeds_def returns_def res_state_def split: res.splits)
  have s2: "fst s2 = fst s1"
    using dispatch_executor [of env i st s1] d by (simp add: res_state_def)
  obtain s3 ev2 where sf: "step_failed env i st e s2 = Return (False, st) s3"
    and e3: "events (monitor (fst s3)) = events (monitor (fst s2)) @ [ev2]"
    and t2: "tag ev2 = (int i, ''failed'')" and d3: "driver (fst s3) = driver (fst s2)"
    using step_failed_returns [of env i st e s2] by blast
  have "execute_step env i st s = Return (False, st) s3"
    by (simp add: execute_step_def b and_then_def d sf)
  moreover have "events (monitor (fst s3)) = events (monitor (fst s)) @ [ev1, ev2]"
    using e3 s2 e1 by simp
  moreover have "driver (fst s3) = driver (fst s)"
    using d3 s2 d1 by simp
  ultimately show ?thesis
    using t1 t2 by (intro exI [of _ s3] exI [of _ "[ev1, ev2]"]) auto
qed

lemma upt_add_Suc: "[i..<i + Suc n] = i # [Suc i..<Suc i + n]"
  by (simp del: upt_Suc add: upt_conv_Cons)

lemma run_steps_success:
  assumes "driver (fst s)"
    and "\<forall>j<length xs. action_succeeds env (i + j) (xs ! j) (after_steps env i (take j xs) s)"
  shows "\<exists>ys s' new. run_steps env i xs s = Return (True, ys) s' \<and>
     events (monitor (fst s')) = events (monitor (fst s)) @ new \<and>
     map tag new = concat (map (\<lambda>j. [(int j, ''started''), (int j, ''success'')])
                            [i..<i + length xs])"
  using assms
proof (induction xs arbitrary: i s)
  case Nil
  then show ?case by simp
next
  case (Cons x xs)
  from Cons.prems(2) have "action_succeeds env i x s" by fastforce
  from execute_step_success [OF Cons.prems(1) this] obtain st1 s1 new1
    where ex: "execute_step env i x s = Return (True, st1) s1"
      and ev1: "events (monitor (fst s1)) = events (monitor (fst s)) @ new1"
      and tg1: "map tag new1 = [(int i, ''started''), (int i, ''success'')]"
      and dr1: "driver (fst s1)"
    by (elim exE conjE)
  have "\<forall>j<length xs. action_succeeds env (Suc i + j) (xs ! j)
          (after_steps env (Suc i) (take j xs) s1)"
  proof (intro allI impI)
    fix j assume "j < length xs"
    then have "action_succeeds env (i + Suc j) ((x # xs) ! Suc j)
        (after_steps env i (take (Suc j) (x # xs)) s)"
      using Cons.prems(2) by (metis length_Cons Suc_less_eq)
    then show "action_succeeds env (Suc i + j) (xs ! j)
        (after_steps env (Suc i) (take j xs) s1)"
      by (simp add: ex res_state_def)
  qed
  with Cons.IH [OF dr1] obtain ys s2 new2
    where rs: "run_steps env (Suc i) xs s1 = Return (True, ys) s2"
      and ev2: "events (monitor (fst s2)) = events (monitor (fst s1)) @ new2"
      and tg2: "map tag new2 = concat (map (\<lambda>j. [(int j, ''started''), (int j, ''success'')])
                            [Suc i..<Suc i + length xs])"
    by blast
  have "run_steps env i (x # xs) s = Return (True, st1 # ys) s2"
    by (simp add: ex rs and_then_def)
  moreover have "events (monitor (fst s2)) = events (monitor (fst s)) @ (new1 @ new2)"
    using ev1 ev2 by simp
  moreover have "map tag (new1 @ new2) =
      concat (map (\<lambda>j. [(int j, ''started''), (int j, ''success'')]) [i..<i + length (x # xs)])"
    using tg1 tg2 by (simp del: upt_Suc add: upt_add_Suc [simplified])
  ultimately show ?case by blast
qed

lemma run_steps_failure:
  assumes "driver (fst s)" and "k < length xs"
    and "\<forall>j<k. action_succeeds env (i + j) (xs ! j) (after_steps env i (take j xs) s)"
    and "\<not> action_succeeds env (i + k) (xs ! k) (after_steps env i (take k xs) s)"
  shows "\<exists>ys s' new. run_steps env i xs s = Return (False, ys) s' \<and>
     events (monitor (fst s')) = events (monitor (fst s)) @ new \<and>
     map tag new = concat (map (\<lambda>j. [(int j, ''started''), (int j, ''success'')]) [i..<i + k])
        @ [(int (i + k), ''started''), (int (i + k), ''failed''), (int (i + k), ''failed'')]"
  using assms
proof (induction xs arbitrary: i s k)
  case Nil
  then show ?case by simp
next
  case (Cons x xs)
  show ?case
  proof (cases k)
    case 0
    with Cons.prems(4) have "\<not> action_succeeds env i x s" by simp
    from execute_step_failure [OF this] obtain s1 new1
      where ex: "execute_step env i x s = Return (False, x) s1"
        and ev1: "events (monitor (fst s1)) = events (monitor (fst s)) @ new1"
        and tg1: "map tag new1 = [(int i, ''started''), (int i, ''failed'')]"
      by (elim exE conjE)
    obtain path s2 where sc: "save_screenshot env (''error_step_'' @ str_nat i) s1 = (path, s2)"
      by (cases "save_screenshot env (''error_step_'' @ str_nat i) s1")
    then have s2: "fst s2 = fst s1"
      using save_screenshot_executor [of env "''error_step_'' @ str_nat i" s1] by simp
    obtain ev s3 where fe: "failed_event env i
        (case step_action x of None \<Rightarrow> Some ''unknown'' | Some a \<Rightarrow> Some a)
        x ''Step execution failed'' path s2 = (ev, s3)"
      by (cases "failed_event env i
        (case step_action x of None \<Rightarrow> Some ''unknown'' | Some a \<Rightarrow> Some a)
        x ''Step execution failed'' path s2")
    then have tg: "tag ev = (int i, ''failed'')" and s3: "fst s3 = fst s2"
      by (auto simp add: failed_event_def tag_def Let_def split: prod.splits)
    define s4 where "s4 = ((fst s3)\<lparr>monitor := (monitor (fst s3))
                   \<lparr>events := events (monitor (fst s3)) @ [ev],
                    current_step := Some (step_index ev)\<rparr>\<rparr>,
           foldl (\<lambda>w l. res_state (l ev w)) (snd s3) (listeners (monitor (fst s3))))"
    have run: "run_steps env i (x # xs) s = Return (False, x # xs) s4"
      unfolding run_steps.simps ex s4_def
      by (simp add: sc [simplified] fe emit_event_returns and_then_def)
    have "events (monitor (fst s4)) = events (monitor (fst s)) @ (new1 @ [ev])"
      using s3 s2 ev1 by (simp add: s4_def)
    moreover have "map tag (new1 @ [ev]) =
        concat (map (\<lambda>j. [(int j, ''started''), (int j, ''success'')]) [i..<i + k])
        @ [(int (i + k), ''started''), (int (i + k), ''failed''), (int (i + k), ''failed'')]"
      using tg1 tg 0 by simp
    ultimately show ?thesis
      using run by blast
  next
    case (Suc k')
    from Cons.prems(3) Suc have "action_succeeds env i x s" by fastforce
    from execute_step_success [OF Cons.prems(1) this] obtain st1 s1 new1
      where ex: "execute_step env i x s = Return (True, st1) s1"
        and ev1: "events (monitor (fst s1)) = events (monitor (fst s)) @ new1"
        and tg1: "map tag new1 = [(int i, ''started''), (int i, ''success'')]"
        and dr1: "driver (fst s1)"
      by (elim exE conjE)
    have kl: "k' < length xs" using Cons.prems(2) Suc by simp
    have ok: "\<forall>j<k'. action_succeeds env (Suc i + j) (xs ! j)
          (after_steps env (Suc i) (take j xs) s1)"
    proof (intro allI impI)
      fix j assume "j < k'"
      then have "action_succeeds env (i + Suc j) ((x # xs) ! Suc j)
          (after_steps env i (take (Suc j) (x # xs)) s)"
        using Cons.prems(3) Suc by (metis Suc_less_eq)
      then show "action_succeeds env (Suc i + j) (xs ! j)
          (after_steps env (Suc i) (take j xs) s1)"
        by (simp add: ex res_state_def)
    qed
    have bad: "\<not> action_succeeds env (Suc i + k') (xs ! k')
          (after_steps env (Suc i) (take k' xs) s1)"
      using Cons.prems(4) Suc by (simp add: ex res_state_def)
    from Cons.IH [OF dr1 kl ok bad] obtain ys s2 new2
      where rs: "run_steps env (Suc i) xs s1 = Return (False, ys) s2"
        and ev2: "events (monitor (fst s2)) = events (monitor (fst s1)) @ new2"
        and tg2: "map tag new2 =
          concat (map (\<lambda>j. [(int j, ''started''), (int j, ''success'')]) [Suc i..<Suc i + k'])
          @ [(int (Suc i + k'), ''started''), (int (Suc i + k'), ''failed''),
             (int (Suc i + k'), ''failed'')]"
      by blast
    have "run_steps env i (x # xs) s = Return (False, st1 # ys) s2"
      by (simp add: ex rs and_then_def)
    moreover have "events (monitor (fst s2)) = events (monitor (fst s)) @ (new1 @ new2)"
      using ev1 ev2 by simp
    moreover have "map tag (new1 @ new2) =
        concat (map (\<lambda>j. [(int j, ''started''), (int j, ''success'')]) [i..<i + k])
        @ [(int (i + k), ''started''), (int (i + k), ''failed''), (int (i + k), ''failed'')]"
      using tg1 tg2 Suc by (simp del: upt_Suc add: upt_add_Suc [simplified])
    ultimately show ?thesis by blast
  qed
qed

lemma ensure_browser_driver: "driver (fst (ensure_browser env s))"
  by (simp add: ensure_browser_def start_browser_def)

lemma ensure_browser_monitor: "monitor (fst (ensure_browser env s)) = monitor (fst s)"
  by (simp add: ensure_browser_def start_browser_def)

text \<open>
  C2. When the dispatched action of every step of the plan succeeds, each in the state the
  run has reached, \<open>execute_plan\<close> returns \<open>True\<close> and appends to the log, for the indices
  \<open>0, \<dots>, N - 1\<close> in this order, the started event of the step and then its success event,
  and nothing else.
\<close>

theorem execute_plan_all_succeed:
  assumes "\<forall>j<length (plan_steps p).
     action_succeeds env j (plan_steps p ! j)
       (after_steps env 0 (take j (plan_steps p)) (ensure_browser env s))"
  shows "\<exists>p' s' new. execute_plan env p s = Return (True, p') s' \<and>
     events (monitor (fst s')) = events (monitor (fst s)) @ new \<and>
     map tag new = concat (map (\<lambda>j. [(int j, ''started''), (int j, ''success'')])
                            [0..<length (plan_steps p)])"
proof -
  from run_steps_success [of "ensure_browser env s" "plan_steps p" env 0,
      OF ensure_browser_driver] assms
  obtain ys s' new
    where rs: "run_steps env 0 (plan_steps p) (ensure_browser env s) = Return (True, ys) s'"
      and ev: "events (monitor (fst s')) = events (monitor (fst (ensure_browser env s))) @ new"
      and tg: "map tag new = concat (map (\<lambda>j. [(int j, ''started''), (int j, ''success'')])
                            [0..<0 + length (plan_steps p)])"
    by auto
  have ev': "events (monitor (fst s')) = events (monitor (fst s)) @ new"
    using ev by (simp add: ensure_browser_monitor)
  have tg': "map tag new = concat (map (\<lambda>j. [(int j, ''started''), (int j, ''success'')])
                            [0..<length (plan_steps p)])"
    using tg by simp
  have "\<exists>p'. execute_plan env p s = Return (True, p') s'"
    by (simp add: execute_plan_def rs and_then_def)
  then show ?thesis
    using ev' tg' by blast
qed

theorem execute_plan_all_succeed_witness:
  "map_option fst (returned (execute_plan (demo_env None None) good_plan (demo_executor, [])))
     = Some True \<and>
   map tag (events (monitor (fst (res_state
       (execute_plan (demo_env None None) good_plan (demo_executor, []))))))
     = [(0, ''started''), (0, ''success''), (1, ''started''), (1, ''success'')]"
proof -
  have h: "\<forall>j<length (plan_steps good_plan).
     action_succeeds (demo_env None None) j (plan_steps good_plan ! j)
       (after_steps (demo_env None None) 0 (take j (plan_steps good_plan))
          (ensure_browser (demo_env None None) (demo_executor, [])))"
  proof (intro allI impI)
    fix j assume "j < length (plan_steps good_plan)"
    then consider "j = 0" | "j = 1"
      by (auto simp add: good_plan_def plan_steps_def less_Suc_eq)
    then show "action_succeeds (demo_env None None) j (plan_steps good_plan ! j)
       (after_steps (demo_env None None) 0 (take j (plan_steps good_plan))
          (ensure_browser (demo_env None None) (demo_executor, [])))"
    proof cases
      case 1
      show ?thesis unfolding 1 by code_simp
    next
      case 2
      show ?thesis unfolding 2 by code_simp
    qed
  qed
  have n: "[0..<length (plan_steps good_plan)] = [0, 1]"
    by (simp add: good_plan_def plan_steps_def)
  have e: "events (monitor (fst (demo_executor, []::string list))) = []"
    by (simp add: demo_executor_def executor_init_def monitor_init_def)
  from execute_plan_all_succeed [OF h] show ?thesis
    unfolding n e by (auto simp add: returned_def res_state_def)
qed

text \<open>
  C1. What \<open>execute_plan\<close> does when the actions of the steps \<open>0, \<dots>, k - 1\<close> succeed and the
  action of step \<open>k\<close> fails: it returns \<open>False\<close>, and the log gains \<open>k\<close> pairs of a started and
  a success event, the started event of step \<open>k\<close>, and two failed events of index \<open>k\<close> (the
  one of \<open>_execute_step\<close> and a second one of \<open>execute_plan\<close> itself), and no event of a
  later step. A failing step so has two terminal events, not the single one of the
  event model.
\<close>

theorem execute_plan_first_failure:
  assumes "k < length (plan_steps p)"
    and "\<forall>j<k. action_succeeds env j (plan_steps p ! j)
           (after_steps env 0 (take j (plan_steps p)) (ensure_browser env s))"
    and "\<not> action_succeeds env k (plan_steps p ! k)
           (after_steps env 0 (take k (plan_steps p)) (ensure_browser env s))"
  shows "\<exists>p' s' new. execute_plan env p s = Return (False, p') s' \<and>
     events (monitor (fst s')) = events (monitor (fst s)) @ new \<and>
     map tag new =
       concat (map (\<lambda>j. [(int j, ''started''), (int j, ''success'')]) [0..<k])
       @ [(int k, ''started''), (int k, ''failed''), (int k, ''failed'')]"
proof -
  have a2: "\<forall>j<k. action_succeeds env (0 + j) (plan_steps p ! j)
           (after_steps env 0 (take j (plan_steps p)) (ensure_browser env s))"
    using assms(2) by simp
  have a3: "\<not> action_succeeds env (0 + k) (plan_steps p ! k)
           (after_steps env 0 (take k (plan_steps p)) (ensure_browser env s))"
    using assms(3) by simp
  from run_steps_failure [OF ensure_browser_driver assms(1) a2 a3]
  obtain ys s' new
    where rs: "run_steps env 0 (plan_steps p) (ensure_browser env s) = Return (False, ys) s'"
      and ev: "events (monitor (fst s')) = events (monitor (fst (ensure_browser env s))) @ new"
      and tg: "map tag new =
         concat (map (\<lambda>j. [(int j, ''started''), (int j, ''success'')]) [0..<0 + k])
         @ [(int (0 + k), ''started''), (int (0 + k), ''failed''), (int (0 + k), ''failed'')]"
    by (elim exE conjE)
  have ev': "events (monitor (fst s')) = events (monitor (fst s)) @ new"
    using ev by (simp add: ensure_browser_monitor)
  have tg': "map tag new =
       concat (map (\<lambda>j. [(int j, ''started''), (int j, ''success'')]) [0..<k])
       @ [(int k, ''started''), (int k, ''failed''), (int k, ''failed'')]"
    using tg by simp
  have "\<exists>p'. execute_plan env p s = Return (False, p') s'"
    by (simp add: execute_plan_def rs and_then_def)
  then show ?thesis
    using ev' tg' by blast
qed

theorem execute_plan_first_failure_witness:
  "map_option fst (returned (execute_plan (demo_env None None) bad_plan (demo_executor, [])))
     = Some False \<and>
   map tag (events (monitor (fst (res_state
       (execute_plan (demo_env None None) bad_plan (demo_executor, []))))))
     = [(0, ''started''), (0, ''success''), (1, ''started''), (1, ''failed''), (1, ''failed'')]"
proof -
  have k: "1 < length (plan_steps bad_plan)"
    by (simp add: bad_plan_def plan_steps_def)
  have h: "\<forall>j<1. action_succeeds (demo_env None None) j (plan_steps bad_plan ! j)
       (after_steps (demo_env None None) 0 (take j (plan_steps bad_plan))
          (ensure_browser (demo_env None None) (demo_executor, [])))"
  proof (intro allI impI)
    fix j :: nat assume "j < 1"
    then have j: "j = 0" by simp
    show "action_succeeds (demo_env None None) j (plan_steps bad_plan ! j)
       (after_steps (demo_env None None) 0 (take j (plan_steps bad_plan))
          (ensure_browser (demo_env None None) (demo_executor, [])))"
      unfolding j by code_simp
  qed
  have f: "\<not> action_succeeds (demo_env None None) 1 (plan_steps bad_plan ! 1)
       (after_steps (demo_env None None) 0 (take 1 (plan_steps bad_plan))
          (ensure_browser (demo_env None None) (demo_executor, [])))"
    by code_simp
  have e: "events (monitor (fst (demo_executor, []::string list))) = []"
    by (simp add: demo_executor_def executor_init_def monitor_init_def)
  from execute_plan_first_failure [OF k h f] show ?thesis
    unfolding e by (auto simp add: returned_def res_state_def)
qed

text \<open>
  The log of such a run is not made of step attempts, and the reporter's summary of it
  counts one successful and two failed steps among two steps in total.
\<close>

lemma summary_of_failed_run:
  "successful_steps (fst (generate_summary (demo_env None None) (reporter_init (get_log (monitor
      (fst (res_state (execute_plan (demo_env None None) bad_plan (demo_executor, [])))))))
      [])) = 1 \<and>
   failed_steps (fst (generate_summary (demo_env None None) (reporter_init (get_log (monitor
      (fst (res_state (execute_plan (demo_env None None) bad_plan (demo_executor, [])))))))
      [])) = 2 \<and>
   total_steps (fst (generate_summary (demo_env None None) (reporter_init (get_log (monitor
      (fst (res_state (execute_plan (demo_env None None) bad_plan (demo_executor, [])))))))
      [])) = 2"
  by code_simp

lemma execute_plan_empty:
  assumes "plan_steps p = []"
  shows "execute_plan env p s = Return (True, p) (ensure_browser env s)"
proof (cases "steps p")
  case None
  then show ?thesis by (simp add: execute_plan_def assms and_then_def)
next
  case (Some xs)
  with assms have "xs = []" by (simp add: plan_steps_def)
  with Some have "p\<lparr>steps := Some []\<rparr> = p" by simp
  with Some show ?thesis by (simp add: execute_plan_def assms and_then_def)
qed

text \<open>
  C9 (amended). For a plan whose \<open>"steps"\<close> entry is an empty list or absent,
  \<open>execute_plan\<close> returns \<open>True\<close> and emits no event: it leaves the plan and the monitor as
  they were, and only starts the browser when there is none.
\<close>

theorem execute_plan_without_steps:
  assumes "steps p = None \<or> steps p = Some []"
  shows "execute_plan env p s = Return (True, p) (ensure_browser env s) \<and>
         monitor (fst (ensure_browser env s)) = monitor (fst s)"
proof -
  from assms have "plan_steps p = []" by (auto simp add: plan_steps_def)
  then show ?thesis by (simp add: execute_plan_empty ensure_browser_monitor)
qed

theorem execute_plan_without_steps_witness:
  "returned (execute_plan (demo_env None None) \<lparr>steps = None\<rparr> (demo_executor, []))
     = Some (True, \<lparr>steps = None\<rparr>) \<and>
   returned (execute_plan (demo_env None None) \<lparr>steps = Some []\<rparr> (demo_executor, []))
     = Some (True, \<lparr>steps = Some []\<rparr>) \<and>
   events (monitor (fst (res_state
     (execute_plan (demo_env None None) \<lparr>steps = Some []\<rparr> (demo_executor, []))))) = []"
proof -
  have a: "steps \<lparr>steps = None\<rparr> = None \<or> steps \<lparr>steps = None\<rparr> = Some []" by simp
  have b: "steps \<lparr>steps = Some []\<rparr> = None \<or> steps \<lparr>steps = Some []\<rparr> = Some []" by simp
  have e: "events (monitor (fst (demo_executor, []::string list))) = []"
    by (simp add: demo_executor_def executor_init_def monitor_init_def)
  show ?thesis
    using execute_plan_without_steps [OF a, of "demo_env None None" "(demo_executor, [])"]
      execute_plan_without_steps [OF b, of "demo_env None None" "(demo_executor, [])"] e
    by (simp add: returned_def res_state_def)
qed

section \<open>Properties of the orchestrator\<close>

lemma failed_tag_event:
  assumes "(i, ''failed'') \<in> set (map tag new)" and "0 \<le> i"
  shows "\<exists>ev\<in>set new. status ev = ''failed'' \<and> 0 \<le> step_index ev"
  using assms by (auto simp add: tag_def)

lemma run_steps_total:
  assumes "driver (fst s)"
  shows "\<exists>b ys s' new. run_steps env i xs s = Return (b, ys) s' \<and>
     events (monitor (fst s')) = events (monitor (fst s)) @ new \<and>
     (\<not> b \<longrightarrow> (\<exists>ev\<in>set new. status ev = ''failed'' \<and> 0 \<le> step_index ev))"
  using assms
proof (induction xs arbitrary: i s)
  case Nil
  have "run_steps env i [] s = Return (True, []) s" by simp
  moreover have "events (monitor (fst s)) = events (monitor (fst s)) @ []" by simp
  ultimately show ?case by blast
next
  case (Cons x xs)
  show ?case
  proof (cases "action_succeeds env i x s")
    case True
    from execute_step_success [OF Cons.prems True] obtain st1 s1 new1
      where ex: "execute_step env i x s = Return (True, st1) s1"
        and ev1: "events (monitor (fst s1)) = events (monitor (fst s)) @ new1"
        and dr1: "driver (fst s1)"
      by (elim exE conjE)
    from Cons.IH [OF dr1, of "Suc i"] obtain b ys s2 new2
      where rs: "run_steps env (Suc i) xs s1 = Return (b, ys) s2"
        and ev2: "events (monitor (fst s2)) = events (monitor (fst s1)) @ new2"
        and fl: "\<not> b \<longrightarrow> (\<exists>ev\<in>set new2. status ev = ''failed'' \<and> 0 \<le> step_index ev)"
      by (elim exE conjE)
    have "run_steps env i (x # xs) s = Return (b, st1 # ys) s2"
      by (simp add: ex rs and_then_def)
    moreover have "events (monitor (fst s2)) = events (monitor (fst s)) @ (new1 @ new2)"
      using ev1 ev2 by simp
    moreover have "\<not> b \<longrightarrow> (\<exists>ev\<in>set (new1 @ new2). status ev = ''failed'' \<and> 0 \<le> step_index ev)"
      using fl by auto
    ultimately show ?thesis by blast
  next
    case False
    have k: "0 < length (x # xs)" by simp
    have a2: "\<forall>j<0. action_succeeds env (i + j) ((x # xs) ! j)
        (after_steps env i (take j (x # xs)) s)" by simp
    have a3: "\<not> action_succeeds env (i + 0) ((x # xs) ! 0)
        (after_steps env i (take 0 (x # xs)) s)" using False by simp
    from run_steps_failure [OF Cons.prems k a2 a3] obtain ys s' new
      where rs: "run_steps env i (x # xs) s = Return (False, ys) s'"
        and ev: "events (monitor (fst s')) = events (monitor (fst s)) @ new"
        and tg: "map tag new =
          concat (map (\<lambda>j. [(int j, ''started''), (int j, ''success'')]) [i..<i + 0])
          @ [(int (i + 0), ''started''), (int (i + 0), ''failed''), (int (i + 0), ''failed'')]"
      by (elim exE conjE)
    have "(int i, ''failed'') \<in> set (map tag new)"
      unfolding tg by simp
    then have "\<exists>ev\<in>set new. status ev = ''failed'' \<and> 0 \<le> step_index ev"
      by (rule failed_tag_event) simp
    with rs ev show ?thesis by blast
  qed
qed

lemma execute_plan_total:
  "\<exists>b p' s' new. execute_plan env p s = Return (b, p') s' \<and>
     events (monitor (fst s')) = events (monitor (fst s)) @ new \<and>
     (\<not> b \<longrightarrow> (\<exists>ev\<in>set new. status ev = ''failed'' \<and> 0 \<le> step_index ev))"
proof -
  from run_steps_total [of "ensure_browser env s" env 0 "plan_steps p", OF ensure_browser_driver]
  obtain b ys s' new
    where rs: "run_steps env 0 (plan_steps p) (ensure_browser env s) = Return (b, ys) s'"
      and ev: "events (monitor (fst s')) = events (monitor (fst (ensure_browser env s))) @ new"
      and fl: "\<not> b \<longrightarrow> (\<exists>ev\<in>set new. status ev = ''failed'' \<and> 0 \<le> step_index ev)"
    by (elim exE conjE)
  have ev': "events (monitor (fst s')) = events (monitor (fst s)) @ new"
    using ev by (simp add: ensure_browser_monitor)
  have "\<exists>p'. execute_plan env p s = Return (b, p') s'"
    by (simp add: execute_plan_def rs and_then_def)
  then show ?thesis using ev' fl by blast
qed

lemma attempt_total:
  "\<exists>b p' s' new. attempt env p rs = Return (b, p') (fst rs @ [b], s') \<and>
     events (monitor (fst s')) = events (monitor (fst (snd rs))) @ new \<and>
     (\<not> b \<longrightarrow> (\<exists>ev\<in>set new. status ev = ''failed'' \<and> 0 \<le> step_index ev))"
proof -
  from execute_plan_total [of env p "snd rs"] obtain b p' s' new
    where ep: "execute_plan env p (snd rs) = Return (b, p') s'"
      and ev: "events (monitor (fst s')) = events (monitor (fst (snd rs))) @ new"
      and fl: "\<not> b \<longrightarrow> (\<exists>ev\<in>set new. status ev = ''failed'' \<and> 0 \<le> step_index ev)"
    by (elim exE conjE)
  have "attempt env p rs = Return (b, p') (fst rs @ [b], s')"
    by (simp add: attempt_def ep)
  then show ?thesis using ev fl by blast
qed

lemma print_summary_state: "res_state (print_summary rs) = rs"
  by (simp add: print_summary_def res_state_def Let_def split: option.splits)

lemma print_summary_returns:
  assumes "ev \<in> set (events (monitor (fst (snd rs))))" and "0 \<le> step_index ev"
  shows "print_summary rs = Return () rs"
proof -
  have ne: "events (monitor (fst (snd rs))) \<noteq> []" using assms(1) by auto
  have "step_index ev \<le> Max (step_index ` set (events (monitor (fst (snd rs)))))"
    using assms(1) by simp
  with assms(2) have "max_step_index (events (monitor (fst (snd rs)))) + 1 \<noteq> 0"
    by (simp add: max_step_index_Max [OF ne])
  then show ?thesis
    using ne by (simp add: print_summary_def get_current_status_def Let_def)
qed

lemma recover_attempts: "fst (res_state (recover env p rs)) = fst rs"
  by (simp add: recover_def res_state_def split: res.splits)

lemma returned_and_then_const:
  "returned (and_then r (\<lambda>u s. Return v s)) = (if returns r then Some v else None)"
  by (simp add: returned_def and_then_def returns_def split: res.splits)

lemma res_state_and_then_const:
  "res_state (and_then r (\<lambda>u s. Return v s)) = res_state r"
  by (simp add: and_then_def res_state_def split: res.splits)

lemma retry_loop_bound:
  "\<exists>more. fst (res_state (retry_loop env ar mr p rc rs)) = fst rs @ more \<and>
     length more \<le> nat (mr + 1 - rc) \<and>
     ((\<forall>a\<in>set more. \<not> a) \<longrightarrow> returned (retry_loop env ar mr p rc rs) = Some False)"
proof (induction env ar mr p rc rs rule: retry_loop.induct)
  case (1 env ar mr p rc rs)
  show ?case
  proof (cases "rc \<le> mr")
    case False
    then have "retry_loop env ar mr p rc rs = Return False rs"
      by (simp add: retry_loop.simps)
    then show ?thesis by (simp add: res_state_def returned_def)
  next
    case le: True
    from attempt_total [of env p rs] obtain b p1 s1 new
      where at: "attempt env p rs = Return (b, p1) (fst rs @ [b], s1)"
        and ev: "events (monitor (fst s1)) = events (monitor (fst (snd rs))) @ new"
        and fl: "\<not> b \<longrightarrow> (\<exists>ev\<in>set new. status ev = ''failed'' \<and> 0 \<le> step_index ev)"
      by (elim exE conjE)
    show ?thesis
    proof (cases b)
      case True
      then have "retry_loop env ar mr p rc rs =
          and_then (print_summary (fst rs @ [True], s1)) (\<lambda>r rs2. Return True rs2)"
        using le at by (simp add: retry_loop.simps)
      then have "fst (res_state (retry_loop env ar mr p rc rs)) = fst rs @ [True]"
        by (simp add: res_state_and_then_const print_summary_state)
      moreover have "length [True] \<le> nat (mr + 1 - rc)" using le by simp
      moreover have "\<not> (\<forall>a\<in>set [True]. \<not> a)" by auto
      ultimately show ?thesis by blast
    next
      case False
      with fl obtain fev where fin: "fev \<in> set new"
        and fstat: "status fev = ''failed''" and fidx: "0 \<le> step_index fev"
        by blast
      have ps: "print_summary (fst rs @ [False], s1) = Return () (fst rs @ [False], s1)"
        using fin ev fidx by (intro print_summary_returns [of fev]) simp_all
      show ?thesis
      proof (cases "\<not> ar \<or> mr \<le> rc")
        case True
        then have "retry_loop env ar mr p rc rs = Return False (fst rs @ [False], s1)"
          using le at False ps by (simp add: retry_loop.simps and_then_def)
        moreover have "length [False] \<le> nat (mr + 1 - rc)" using le by simp
        ultimately show ?thesis
          by (intro exI [of _ "[False]"]) (simp add: res_state_def returned_def)
      next
        case again: False
        show ?thesis
        proof (cases "recover env p1 (fst rs @ [False], s1)")
          case (Raise e rs2)
          then have rl: "retry_loop env ar mr p rc rs = Return False rs2"
            using le at \<open>\<not> b\<close> again by (simp add: retry_loop.simps)
          have "fst rs2 = fst rs @ [False]"
            using recover_attempts [of env p1 "(fst rs @ [False], s1)"] Raise
            by (simp add: res_state_def)
          moreover have "length [False] \<le> nat (mr + 1 - rc)" using le by simp
          ultimately show ?thesis
            using rl by (intro exI [of _ "[False]"]) (simp add: res_state_def returned_def)
        next
          case (Return p2 rs2)
          then have rl: "retry_loop env ar mr p rc rs = retry_loop env ar mr p2 (rc + 1) rs2"
            using le at \<open>\<not> b\<close> again by (simp add: retry_loop.simps)
          have f2: "fst rs2 = fst rs @ [False]"
            using recover_attempts [of env p1 "(fst rs @ [False], s1)"] Return
            by (simp add: res_state_def)
          from "1.IH" [OF le, of "(b, p1)" "(fst rs @ [False], s1)" p2 rs2]
            at \<open>\<not> b\<close> again Return
          obtain more
            where m1: "fst (res_state (retry_loop env ar mr p2 (rc + 1) rs2)) = fst rs2 @ more"
              and m2: "length more \<le> nat (mr + 1 - (rc + 1))"
              and m3: "(\<forall>a\<in>set more. \<not> a) \<longrightarrow>
                 returned (retry_loop env ar mr p2 (rc + 1) rs2) = Some False"
            by auto
          have "fst (res_state (retry_loop env ar mr p rc rs)) = fst rs @ (False # more)"
            using rl m1 f2 by simp
          moreover have "length (False # more) \<le> nat (mr + 1 - rc)"
            using m2 again by auto
          moreover have "(\<forall>a\<in>set (False # more). \<not> a) \<longrightarrow>
              returned (retry_loop env ar mr p rc rs) = Some False"
            using m3 rl by simp
          ultimately show ?thesis by blast
        qed
      qed
    qed
  qed
qed

lemma execute_task_of_loop:
  assumes "planning env prompt (snd ow) = Return p w1"
  shows "fst (res_state (execute_task env prompt ow)) =
           fst (res_state (retry_loop env (auto_retry (fst ow)) (max_retries (fst ow)) p 0
                  ([], executor (fst ow), w1)))"
    and "returned (execute_task env prompt ow) =
           returned (retry_loop env (auto_retry (fst ow)) (max_retries (fst ow)) p 0
                  ([], executor (fst ow), w1))"
  by (simp_all add: execute_task_def assms res_state_def returned_def split: res.splits)

text \<open>
  C3. \<open>execute_task\<close> always ends (the model is a total function: the loop is defined with
  the measure \<open>max_retries + 1 - retry_count\<close>), and it calls \<open>execute_plan\<close> at most
  \<open>max_retries + 1\<close> times, whatever the planner and the browser do (for a budget below
  \<open>-1\<close>, which is no count, not at all). When every one of these attempts fails, it
  returns \<open>False\<close>. The first component of the final state lists the results of the calls
  of \<open>execute_plan\<close>.
\<close>

theorem execute_task_retry_bound:
  "length (fst (res_state (execute_task env prompt ow))) \<le> nat (max_retries (fst ow) + 1) \<and>
   ((\<forall>a\<in>set (fst (res_state (execute_task env prompt ow))). \<not> a) \<longrightarrow>
      returned (execute_task env prompt ow) = Some False)"
proof (cases "planning env prompt (snd ow)")
  case (Raise e w1)
  then have "execute_task env prompt ow = Return False ([], fst ow, w1)"
    by (simp add: execute_task_def)
  then show ?thesis by (simp add: res_state_def returned_def)
next
  case (Return p w1)
  from retry_loop_bound [of env "auto_retry (fst ow)" "max_retries (fst ow)" p 0
      "([], executor (fst ow), w1)"]
  obtain more
    where m1: "fst (res_state (retry_loop env (auto_retry (fst ow)) (max_retries (fst ow)) p 0
                  ([], executor (fst ow), w1))) = more"
      and m2: "length more \<le> nat (max_retries (fst ow) + 1 - 0)"
      and m3: "(\<forall>a\<in>set more. \<not> a) \<longrightarrow>
            returned (retry_loop env (auto_retry (fst ow)) (max_retries (fst ow)) p 0
                  ([], executor (fst ow), w1)) = Some False"
    by auto
  show ?thesis
    using m2 m3 unfolding execute_task_of_loop [OF Return] m1 by simp
qed

theorem execute_task_retry_bound_witness:
  "fst (res_state (execute_task (demo_env (Some bad_plan) (Some bad_plan)) ''go''
      (demo_orchestrator 2, []))) = [False, False, False] \<and>
   length (fst (res_state (execute_task (demo_env (Some bad_plan) (Some bad_plan)) ''go''
      (demo_orchestrator 2, [])))) \<le> nat (2 + 1) \<and>
   returned (execute_task (demo_env (Some bad_plan) (Some bad_plan)) ''go''
      (demo_orchestrator 2, [])) = Some False"
proof -
  have tr: "fst (res_state (execute_task (demo_env (Some bad_plan) (Some bad_plan)) ''go''
      (demo_orchestrator 2, []))) = [False, False, False]"
    by code_simp
  have mr: "max_retries (fst (demo_orchestrator 2, []::string list)) = 2"
    by (simp add: demo_orchestrator_def)
  from execute_task_retry_bound [of "demo_env (Some bad_plan) (Some bad_plan)" "''go''"
      "(demo_orchestrator 2, [])"]
  show ?thesis
    unfolding tr mr by simp
qed

text \<open>
  C8. When the planner fails on the first request, \<open>execute_task\<close> returns \<open>False\<close> at once:
  no call of \<open>execute_plan\<close> is made, and the orchestrator (its log too) is as it was. And
  in any turn of the retry loop, when the attempt has failed, retries remain and the
  refinement call raises, the loop returns \<open>False\<close> with this attempt as the last one.
\<close>

theorem planner_failure_ends_run:
  "(get_task_plan env prompt (snd ow) = Raise e w1 \<longrightarrow>
      execute_task env prompt ow = Return False ([], fst ow, w1)) \<and>
   (ar \<and> rc < mr \<and> attempt env p rs = Return (False, p1) rs1 \<and>
    refinement env p1 rs1 = Raise e' w2 \<longrightarrow>
      retry_loop env ar mr p rc rs = Return False (fst rs @ [False], fst (snd rs1), w2))"
proof (intro conjI impI)
  assume "get_task_plan env prompt (snd ow) = Raise e w1"
  then show "execute_task env prompt ow = Return False ([], fst ow, w1)"
    by (simp add: execute_task_def planning_def)
next
  assume a: "ar \<and> rc < mr \<and> attempt env p rs = Return (False, p1) rs1 \<and>
    refinement env p1 rs1 = Raise e' w2"
  from attempt_total [of env p rs] obtain b p' s1 new
    where at: "attempt env p rs = Return (b, p') (fst rs @ [b], s1)"
      and ev: "events (monitor (fst s1)) = events (monitor (fst (snd rs))) @ new"
      and fl0: "\<not> b \<longrightarrow> (\<exists>ev\<in>set new. status ev = ''failed'' \<and> 0 \<le> step_index ev)"
    by (elim exE conjE)
  from at a have nb: "\<not> b" and rs1: "rs1 = (fst rs @ [False], s1)"
    by simp_all
  from fl0 nb have fl: "\<exists>ev\<in>set new. status ev = ''failed'' \<and> 0 \<le> step_index ev"
    by simp
  from fl ev have "filter (\<lambda>e. status e = ''failed'') (events (monitor (fst (snd rs1)))) \<noteq> []"
    by (auto simp add: rs1 filter_empty_conv)
  with a have "recover env p1 rs1 = Raise e' (fst rs1, fst (snd rs1), w2)"
    by (simp add: recover_def)
  moreover from a have "ar" and "rc < mr" and "attempt env p rs = Return (False, p1) rs1"
    by simp_all
  ultimately show
    "retry_loop env ar mr p rc rs = Return False (fst rs @ [False], fst (snd rs1), w2)"
    unfolding retry_loop.simps [of env ar mr p rc rs] by (simp add: rs1)
qed

lemma returned_first:
  "map_option fst (returned r) = Some b \<Longrightarrow> r = Return (b, snd (the (returned r))) (res_state r)"
  by (cases r) (auto simp add: returned_def res_state_def)

lemma raised_eq:
  "raised r = Some e \<Longrightarrow> r = Raise e (res_state r)"
  by (cases r) (auto simp add: raised_def res_state_def)

theorem planner_failure_ends_run_witness:
  "execute_task (demo_env None None) ''go'' (demo_orchestrator 2, [])
     = Return False ([], demo_orchestrator 2, [''post'']) \<and>
   returned (retry_loop (demo_env (Some bad_plan) None) True 2 bad_plan 0
      ([], demo_executor, [''post''])) = Some False \<and>
   fst (res_state (retry_loop (demo_env (Some bad_plan) None) True 2 bad_plan 0
      ([], demo_executor, [''post'']))) = [False]"
proof -
  have g: "get_task_plan (demo_env None None) ''go'' (snd (demo_orchestrator 2, []))
      = Raise ''OpenRouter API error: down'' [''post'']"
    by (simp add: get_task_plan_def demo_env_def)
  have "map_option fst (returned (attempt (demo_env (Some bad_plan) None) bad_plan
      ([], demo_executor, [''post'']))) = Some False"
    by code_simp
  from returned_first [OF this] obtain p1 rs1
    where at: "attempt (demo_env (Some bad_plan) None) bad_plan ([], demo_executor, [''post''])
        = Return (False, p1) rs1"
      and p1: "p1 = snd (the (returned (attempt (demo_env (Some bad_plan) None) bad_plan
          ([], demo_executor, [''post'']))))"
      and rs1: "rs1 = res_state (attempt (demo_env (Some bad_plan) None) bad_plan
          ([], demo_executor, [''post'']))"
    by blast
  have "raised (refinement (demo_env (Some bad_plan) None) p1 rs1)
      = Some ''OpenRouter API error: down''"
    unfolding p1 rs1 by code_simp
  from raised_eq [OF this] obtain w2
    where rf: "refinement (demo_env (Some bad_plan) None) p1 rs1
        = Raise ''OpenRouter API error: down'' w2"
    by blast
  have lt: "(0::int) < 2" by simp
  have first: "execute_task (demo_env None None) ''go'' (demo_orchestrator 2, [])
      = Return False ([], fst (demo_orchestrator 2, []::string list), [''post''])"
    by (rule planner_failure_ends_run [THEN conjunct1, rule_format, OF g])
  have hyp: "True \<and> (0::int) < 2 \<and>
      attempt (demo_env (Some bad_plan) None) bad_plan ([], demo_executor, [''post''])
        = Return (False, p1) rs1 \<and>
      refinement (demo_env (Some bad_plan) None) p1 rs1
        = Raise ''OpenRouter API error: down'' w2"
    using at rf by simp
  have later: "retry_loop (demo_env (Some bad_plan) None) True 2 bad_plan 0
      ([], demo_executor, [''post''])
      = Return False (fst ([]::bool list, demo_executor, [''post'']) @ [False], fst (snd rs1), w2)"
    by (rule planner_failure_ends_run [THEN conjunct2, rule_format, OF hyp])
  show ?thesis
    using first later by (simp add: returned_def res_state_def)
qed

text \<open>
  C9 (as stated). The overall run on a plan without steps is not reported as succeeded.
  A plan with no \<open>"steps"\<close> entry is refused by the planner's check, and \<open>execute_task\<close>
  returns \<open>False\<close> without an attempt. A plan whose steps are the empty list is executed
  (one attempt, which returns \<open>True\<close>, and no event), and then \<open>execute_task\<close> does not
  return: \<open>_print_summary\<close> raises \<open>KeyError('completed')\<close> on the empty log.
\<close>

theorem run_without_steps_counterexample:
  "returned (execute_task (demo_env (Some \<lparr>steps = None\<rparr>) None) ''go''
      (demo_orchestrator 2, [])) = Some False \<and>
   fst (res_state (execute_task (demo_env (Some \<lparr>steps = None\<rparr>) None) ''go''
      (demo_orchestrator 2, []))) = [] \<and>
   raised (execute_task (demo_env (Some \<lparr>steps = Some []\<rparr>) None) ''go''
      (demo_orchestrator 2, [])) = Some (key_error ''completed'') \<and>
   fst (res_state (execute_task (demo_env (Some \<lparr>steps = Some []\<rparr>) None) ''go''
      (demo_orchestrator 2, []))) = [True] \<and>
   map tag (events (monitor (executor (fst (snd (res_state (execute_task
      (demo_env (Some \<lparr>steps = Some []\<rparr>) None) ''go'' (demo_orchestrator 2, []))))))))
     = []"
  by code_simp

end
